theory Spec2Isabelle
  imports Main
begin

section \<open>Values, results and outcomes\<close>

text \<open>
  The values that travel through \<open>EnvKit.ts\<close> are JavaScript values: the raw value a
  loader returns, the typed value a parser produces and a schema default. The engine only
  ever asks two things of them: whether they are \<open>undefined\<close> and whether they are
  truthy. Numbers are modelled as integers, an object (a \<open>URL\<close>, say) by an opaque tag.
\<close>

datatype jsvalue =
    JUndefined
  | JNull
  | JBool bool
  | JNum int
  | JStr string
  | JObj string

text \<open>JavaScript's \<open>ToBoolean\<close>, as used by \<open>data?.value\<close>, \<open>!value\<close> and \<open>a && b\<close>.\<close>

fun truthy :: "jsvalue \<Rightarrow> bool" where
  "truthy JUndefined = False"
| "truthy JNull = False"
| "truthy (JBool b) = b"
| "truthy (JNum n) = (n \<noteq> 0)"
| "truthy (JStr s) = (s \<noteq> [])"
| "truthy (JObj _) = True"

text \<open>
  \<open>VariableLookupError(key, message)\<close> is the engine's own error; every other \<open>Error\<close>
  (a loader's, a parser's) carries just its message.
\<close>

datatype error =
    VariableLookupError string string
  | Error string

fun message :: "error \<Rightarrow> string" where
  "message (VariableLookupError k m) = m"
| "message (Error m) = m"

text \<open>\<open>IResult<T, Error>\<close>: \<open>Inl\<close> is \<open>Err\<close>, \<open>Inr\<close> is \<open>Ok\<close>.\<close>

type_synonym 'a result = "error + 'a"

text \<open>
  An awaited call either returns or throws (a rejected promise). The engine's functions are
  \<open>async\<close> and contain no \<open>try\<close>, so a throw of a callee is a throw of the caller.
\<close>

datatype 'a outcome =
    Returned 'a
  | Thrown error

text \<open>The \<open>TypeError\<close> of reading a property of \<open>undefined\<close>.\<close>

definition typeError :: error where
  "typeError = Error ''TypeError''"

text \<open>
  Modelled from the spec: \<open>Loadable\<close> and \<open>LoadableCore.resolve\<close> come from a package
  outside the sources. The spec describes them as a value or a zero-argument asynchronous
  producer of that value, resolved at the point of use; \<open>Deferred\<close> holds what calling and
  awaiting the producer gives.
\<close>

datatype 'a loadable =
    Direct 'a
  | Deferred "'a outcome"

fun resolve :: "'a loadable \<Rightarrow> 'a outcome" where
  "resolve (Direct x) = Returned x"
| "resolve (Deferred r) = r"

section \<open>Loaders, parsers, schema and options\<close>

text \<open>
  Modelled from the spec: \<open>LoaderValueResult\<close> and \<open>IConfigLoader\<close> are declared in
  \<open>./interfaces\<close>, which is not among the sources. A loader value is a path with a raw
  value that may be undefined; a loader has an identifier and
  \<open>getValueResult(key)\<close>, which gives \<open>Result<{path, value} | undefined, Error>\<close>.
\<close>

record loader_value =
  lv_path :: string
  lv_value :: jsvalue

record config_loader =
  loaderType :: string
  getValueResult :: "string \<Rightarrow> loader_value option result outcome"

text \<open>\<open>RawValueResult\<close> and \<open>InferValueResult\<close>: an optional loader type, an optional path, a value.\<close>

record value_result =
  res_loaderType :: "string option"
  res_path :: "string option"
  res_value :: jsvalue

datatype logFormat = Plain | Partial | Hidden

text \<open>
  Modelled from the spec: the parser contract (\<open>parse\<close>, \<open>toString\<close>, \<open>toLogString\<close>) and
  \<open>ConfigSchema\<close> are declared in files that are not among the sources. \<open>parse\<close> is awaited
  and may fail or throw; the two renderers are taken to return a string.
\<close>

record parser =
  parse :: "jsvalue \<Rightarrow> jsvalue result outcome"
  toString :: "jsvalue \<Rightarrow> string"
  toLogString :: "jsvalue \<Rightarrow> logFormat \<Rightarrow> string"

text \<open>
  A key spec. An absent \<open>defaultValue\<close> is \<open>Direct JUndefined\<close>, an absent
  \<open>notFoundError\<close> is \<open>False\<close>, an absent \<open>logFormat\<close> is \<open>None\<close>.
\<close>

record key_spec =
  parser :: parser
  defaultValue :: "jsvalue loadable"
  notFoundError :: bool
  logFormat :: "logFormat option"

type_synonym config_schema = "string \<rightharpoonup> key_spec"

text \<open>
  The schema is a JavaScript object, and \<open>this.#schema[lookupKey]\<close> reads through its
  prototype chain. The map holds the object's own properties, the declared keys; the
  object is taken to be a plain one, so that for a key that is not declared the read
  gives a member of \<open>Object.prototype\<close> when the key names one, and \<open>undefined\<close>
  otherwise. Every such member is truthy and has no \<open>parser\<close> property.
\<close>

definition objectPrototypeMembers :: "string list" where
  "objectPrototypeMembers =
     [''constructor'', ''__defineGetter__'', ''__defineSetter__'', ''hasOwnProperty'',
      ''__lookupGetter__'', ''__lookupSetter__'', ''isPrototypeOf'', ''propertyIsEnumerable'',
      ''toString'', ''valueOf'', ''__proto__'', ''toLocaleString'']"

datatype schema_entry =
    Declared key_spec
  | Inherited
  | Undeclared

definition schemaEntry :: "config_schema \<Rightarrow> string \<Rightarrow> schema_entry" where
  "schemaEntry cfg lookupKey =
     (case cfg lookupKey of
        Some schema \<Rightarrow> Declared schema
      | None \<Rightarrow> if lookupKey \<in> set objectPrototypeMembers then Inherited else Undeclared)"

datatype loggingMode = Single | Always

datatype loaderErrorMode = Throws | Log

record env_kit_options =
  namespace :: "string option"
  loggingMode :: "loggingMode option"
  loaderError :: "loaderErrorMode option"

section \<open>The engine's state and effects\<close>

text \<open>
  \<open>EnvKit.defaultLogMap\<close>: messages under the key \<open>loader\<close> have level \<open>None\<close>, those
  under \<open>loaderError\<close> have level \<open>Warn\<close>; \<open>logger.info\<close> writes at level \<open>Info\<close>.
\<close>

datatype logLevel = LevelNone | LevelWarn | LevelInfo

datatype logMapKey = LoaderKey | LoaderErrorKey

fun defaultLogMap :: "logMapKey \<Rightarrow> logLevel" where
  "defaultLogMap LoaderKey = LevelNone"
| "defaultLogMap LoaderErrorKey = LevelWarn"

text \<open>
  What a lookup does to the world outside the engine, in order: the messages handed to the
  logger, every call of a loader's \<open>getValueResult\<close> (loader type and key) and every call
  of the parser's \<open>parse\<close> (its argument).
\<close>

datatype event =
    Logged logLevel string
  | GetValueResult string string
  | Parse jsvalue

text \<open>The engine's mutable state: \<open>#seenLog\<close>, and the effects so far.\<close>

record env_state =
  seenLog :: "string \<rightharpoonup> string"
  events :: "event list"

definition emit :: "event list \<Rightarrow> env_state \<Rightarrow> env_state" where
  "emit evs s = s\<lparr>events := events s @ evs\<rparr>"

definition logKey :: "logMapKey \<Rightarrow> string \<Rightarrow> event" where
  "logKey k msg = Logged (defaultLogMap k) msg"

section \<open>The resolution engine\<close>

text \<open>\<open>#getLoaderEntry\<close>: the loader's answer, tagged with the loader's type.\<close>

definition getLoaderEntry :: "config_loader \<Rightarrow> string \<Rightarrow> value_result result outcome" where
  "getLoaderEntry loader lookupKey =
     (case getValueResult loader lookupKey of
        Thrown e \<Rightarrow> Thrown e
      | Returned (Inl e) \<Rightarrow> Returned (Inl e)
      | Returned (Inr None) \<Rightarrow>
          Returned (Inr \<lparr>res_loaderType = Some (loaderType loader),
                         res_path = Some lookupKey, res_value = JUndefined\<rparr>)
      | Returned (Inr (Some d)) \<Rightarrow>
          Returned (Inr \<lparr>res_loaderType = Some (loaderType loader),
                         res_path = Some (lv_path d), res_value = lv_value d\<rparr>))"

text \<open>
  The \<open>for await\<close> loop of \<open>#getEntry\<close> over \<open>#getResultIterator\<close> and
  \<open>#getLoaderIterator\<close>. Per loader: resolve it, log under \<open>loader\<close>, call
  \<open>#getLoaderEntry\<close>; under \<open>throws\<close> an \<open>Err\<close> is returned; otherwise an \<open>Err\<close> is
  logged under \<open>loaderError\<close>; an \<open>Ok\<close> with a truthy value is parsed and returned.
  \<open>Returned None\<close> says that the loop ran to its end without returning.
\<close>

fun getEntryLoop ::
  "env_kit_options \<Rightarrow> string \<Rightarrow> parser \<Rightarrow> config_loader loadable list \<Rightarrow> env_state
    \<Rightarrow> value_result result option outcome \<times> env_state" where
  "getEntryLoop opts lookupKey p [] s = (Returned None, s)"
| "getEntryLoop opts lookupKey p (ld # rest) s =
     (case resolve ld of
        Thrown e \<Rightarrow> (Thrown e, s)
      | Returned loader \<Rightarrow>
          (let s1 = emit [logKey LoaderKey
                            (''get loader '' @ loaderType loader @ '' result for key '' @ lookupKey),
                          GetValueResult (loaderType loader) lookupKey] s
           in case getLoaderEntry loader lookupKey of
                Thrown e \<Rightarrow> (Thrown e, s1)
              | Returned (Inl err) \<Rightarrow>
                  if loaderError opts = Some Throws then (Returned (Some (Inl err)), s1)
                  else getEntryLoop opts lookupKey p rest
                         (emit [logKey LoaderErrorKey
                                  (''Loader error: '' @ lookupKey @ '' '' @ message err)] s1)
              | Returned (Inr data) \<Rightarrow>
                  if truthy (res_value data) then
                    (case parse p (res_value data) of
                       Thrown e \<Rightarrow> (Thrown e, emit [Parse (res_value data)] s1)
                     | Returned (Inl e) \<Rightarrow>
                         (Returned (Some (Inl e)), emit [Parse (res_value data)] s1)
                     | Returned (Inr v) \<Rightarrow>
                         (Returned (Some (Inr \<lparr>res_loaderType = res_loaderType data,
                                                 res_path = res_path data, res_value = v\<rparr>)),
                          emit [Parse (res_value data)] s1))
                  else getEntryLoop opts lookupKey p rest s1))"

text \<open>What \<open>#getEntry\<close> does once no loader gave a value: default, required, soft-missing.\<close>

definition noValue :: "key_spec \<Rightarrow> string \<Rightarrow> value_result result outcome" where
  "noValue schema lookupKey =
     (case (case defaultValue schema of
              Direct JUndefined \<Rightarrow> Returned JUndefined
            | dv \<Rightarrow> resolve dv) of
        Thrown e \<Rightarrow> Thrown e
      | Returned dflt \<Rightarrow>
          if dflt \<noteq> JUndefined then
            Returned (Inr \<lparr>res_loaderType = Some ''defaultValue'',
                           res_path = Some (''key:'' @ lookupKey), res_value = dflt\<rparr>)
          else if notFoundError schema then
            Returned (Inl (VariableLookupError lookupKey
                             (''Missing required value for key: '' @ lookupKey)))
          else
            Returned (Inr \<lparr>res_loaderType = None, res_path = Some lookupKey,
                           res_value = JUndefined\<rparr>))"

text \<open>
  The private \<open>#getEntry\<close>. A key that reads an inherited member passes \<open>!schema\<close>, and
  \<open>schema.parser.parse\<close> then throws, \<open>schema.parser\<close> being \<open>undefined\<close>.
\<close>

definition getEntry' ::
  "config_schema \<Rightarrow> config_loader loadable list \<Rightarrow> env_kit_options \<Rightarrow> string \<Rightarrow> env_state
    \<Rightarrow> value_result result outcome \<times> env_state" where
  "getEntry' cfg loaders opts lookupKey s =
     (case schemaEntry cfg lookupKey of
        Undeclared \<Rightarrow>
          (Returned (Inl (VariableLookupError lookupKey
             (''Key '' @ [CHR 0x22] @ lookupKey @ [CHR 0x22] @ '' is not defined in schema''))), s)
      | Inherited \<Rightarrow> (Thrown typeError, s)
      | Declared schema \<Rightarrow>
          (case getEntryLoop opts lookupKey (parser schema) loaders s of
             (Thrown e, s1) \<Rightarrow> (Thrown e, s1)
           | (Returned (Some r), s1) \<Rightarrow> (Returned r, s1)
           | (Returned None, s1) \<Rightarrow> (noValue schema lookupKey, s1)))"

text \<open>\<open>#printValue\<close> and \<open>#printLog\<close>, the dedup logger.\<close>

definition printValue :: "value_result \<Rightarrow> key_spec \<Rightarrow> string" where
  "printValue data schema =
     (let fmt = (case logFormat schema of None \<Rightarrow> Plain | Some f \<Rightarrow> f)
      in if fmt = Hidden then []
         else if \<not> truthy (res_value data) then '' [undefined]''
         else '' ['' @ toLogString (parser schema) (res_value data) fmt @ '']'')"

definition logLine :: "env_kit_options \<Rightarrow> string \<Rightarrow> value_result \<Rightarrow> key_spec \<Rightarrow> string" where
  "logLine opts key data schema =
     (let namespaceString = (case namespace opts of
                               None \<Rightarrow> []
                             | Some ns \<Rightarrow> if ns = [] then [] else '':'' @ ns);
          lt = (case res_loaderType data of None \<Rightarrow> [] | Some t \<Rightarrow> t)
      in if lt \<noteq> [] then
           ''ConfigVariables'' @ namespaceString @ ''['' @ lt @ '']: '' @ key
             @ printValue data schema @ '' from ''
             @ (case res_path data of None \<Rightarrow> ''undefined'' | Some p \<Rightarrow> p)
         else ''ConfigVariables'' @ namespaceString @ '': '' @ key @ printValue data schema)"

definition printLog ::
  "env_kit_options \<Rightarrow> string \<Rightarrow> value_result \<Rightarrow> key_spec \<Rightarrow> env_state \<Rightarrow> env_state" where
  "printLog opts key data schema s =
     (let output = logLine opts key data schema
      in if loggingMode opts = Some Always \<or> seenLog s key \<noteq> Some output then
           emit [Logged LevelInfo output] (s\<lparr>seenLog := (seenLog s)(key \<mapsto> output)\<rparr>)
         else s)"

text \<open>
  The public \<open>getEntry\<close>: \<open>#getEntry\<close>, then \<open>inspectOk\<close> with \<open>#printLog\<close>. The schema
  entry read in its first line is a key spec whenever \<open>#getEntry\<close> gives \<open>Ok\<close>; with
  anything else \<open>#printLog\<close> would throw on reading \<open>parser\<close>.
\<close>

definition getEntry ::
  "config_schema \<Rightarrow> config_loader loadable list \<Rightarrow> env_kit_options \<Rightarrow> string \<Rightarrow> env_state
    \<Rightarrow> value_result result outcome \<times> env_state" where
  "getEntry cfg loaders opts lookupKey s =
     (case getEntry' cfg loaders opts lookupKey s of
        (Returned (Inr data), s1) \<Rightarrow>
          (case schemaEntry cfg lookupKey of
             Declared schema \<Rightarrow> (Returned (Inr data), printLog opts lookupKey data schema s1)
           | Inherited \<Rightarrow> (Thrown typeError, s1)
           | Undeclared \<Rightarrow> (Thrown typeError, s1))
      | other \<Rightarrow> other)"

text \<open>\<open>get\<close>: the entry projected to its value.\<close>

definition get ::
  "config_schema \<Rightarrow> config_loader loadable list \<Rightarrow> env_kit_options \<Rightarrow> string \<Rightarrow> env_state
    \<Rightarrow> jsvalue result outcome \<times> env_state" where
  "get cfg loaders opts lookupKey s =
     (case getEntry cfg loaders opts lookupKey s of
        (Returned (Inr data), s1) \<Rightarrow> (Returned (Inr (res_value data)), s1)
      | (Returned (Inl e), s1) \<Rightarrow> (Returned (Inl e), s1)
      | (Thrown e, s1) \<Rightarrow> (Thrown e, s1))"

text \<open>
  \<open>getString\<close>: \<open>Ok(data.value && schema.parser.toString(data.value))\<close>. JavaScript's
  \<open>a && b\<close> is \<open>b\<close> when \<open>a\<close> is truthy and \<open>a\<close> itself otherwise.
\<close>

definition getString ::
  "config_schema \<Rightarrow> config_loader loadable list \<Rightarrow> env_kit_options \<Rightarrow> string \<Rightarrow> env_state
    \<Rightarrow> jsvalue result outcome \<times> env_state" where
  "getString cfg loaders opts lookupKey s =
     (case getEntry cfg loaders opts lookupKey s of
        (Returned (Inr data), s1) \<Rightarrow>
          (case schemaEntry cfg lookupKey of
             Declared schema \<Rightarrow>
               (Returned (Inr (if truthy (res_value data)
                               then JStr (toString (parser schema) (res_value data))
                               else res_value data)), s1)
           | Inherited \<Rightarrow> (Thrown typeError, s1)
           | Undeclared \<Rightarrow> (Thrown typeError, s1))
      | (Returned (Inl e), s1) \<Rightarrow> (Returned (Inl e), s1)
      | (Thrown e, s1) \<Rightarrow> (Thrown e, s1))"

section \<open>The Azure Key Vault loader and its single-flight cache\<close>

text \<open>
  Modelled from the spec: \<open>ExpireCache\<close> comes from a package outside the sources. The
  spec gives its contract: \<open>get\<close>, \<open>set\<close>, \<open>delete\<close>, \<open>clear\<close>, and an optional time
  to live, after which an entry is evicted, counted from the moment it was set and
  whatever the accesses. The loader's option \<open>expireMs\<close> ("value expire time in ms to force
  read again from Azure Key Vault, default is never") is that time to live.
\<close>

record 'v cache_entry =
  ce_data :: 'v
  ce_expires :: "nat option"

type_synonym 'v expire_cache = "string \<rightharpoonup> 'v cache_entry"

definition cache_get :: "nat \<Rightarrow> 'v expire_cache \<Rightarrow> string \<Rightarrow> 'v option" where
  "cache_get now c k =
     (case c k of
        None \<Rightarrow> None
      | Some e \<Rightarrow>
          (case ce_expires e of
             None \<Rightarrow> Some (ce_data e)
           | Some t \<Rightarrow> if now < t then Some (ce_data e) else None))"

definition cache_set :: "nat \<Rightarrow> nat option \<Rightarrow> 'v expire_cache \<Rightarrow> string \<Rightarrow> 'v \<Rightarrow> 'v expire_cache" where
  "cache_set now ttl c k v =
     c(k \<mapsto> \<lparr>ce_data = v, ce_expires = (case ttl of None \<Rightarrow> None | Some d \<Rightarrow> Some (now + d))\<rparr>)"

definition cache_delete :: "'v expire_cache \<Rightarrow> string \<Rightarrow> 'v expire_cache" where
  "cache_delete c k = c(k := None)"

definition cache_clear :: "'v expire_cache" where
  "cache_clear = Map.empty"

text \<open>
  The options of \<open>AzureSecretsConfigLoader\<close> that \<open>getRawValue\<close> reads (credentials and
  loggers left out), taken as already resolved by \<open>getOptions\<close>.
\<close>

record azure_options =
  disabled :: bool
  url :: string
  expireMs :: "nat option"
  errExpireMs :: "nat option"

text \<open>
  The loader's state. Time is a clock in milliseconds. A promise is known by its index in
  \<open>promises\<close>, where it stands with the secret name it was started for and, once the remote
  call has finished, its result (\<open>#handleLoaderPromise\<close> catches every failure, so the
  promise always resolves to a result). \<open>timers\<close> are the pending \<open>setTimeout\<close> callbacks
  of \<open>getRawValue\<close>: the time they are due and the key they delete. \<open>getSecretCalls\<close> are the
  calls of \<open>secretClient.getSecret\<close>, in order.
\<close>

record azure_state =
  clock :: nat
  valuePromises :: "nat expire_cache"
  promises :: "(string \<times> loader_value result option) list"
  timers :: "(nat \<times> string) list"
  getSecretCalls :: "string list"

definition init_state :: azure_state where
  "init_state = \<lparr>clock = 0, valuePromises = cache_clear, promises = [], timers = [],
                  getSecretCalls = []\<rparr>"

text \<open>What a caller of \<open>getRawValue\<close> gets: a result at once, or the result of a promise.\<close>

datatype reply =
    Now "loader_value result"
  | Awaited nat

text \<open>
  \<open>getRawValue\<close> up to its \<open>await\<close>: nothing suspends between \<open>valuePromises.get\<close> and
  \<open>valuePromises.set\<close>, and \<open>#handleLoaderPromise\<close> runs up to its call of \<open>getSecret\<close>
  before \<open>set\<close>.
\<close>

definition getRawValue ::
  "(string \<rightharpoonup> string) \<Rightarrow> azure_options \<Rightarrow> string \<Rightarrow> azure_state \<Rightarrow> reply \<times> azure_state" where
  "getRawValue keySecretMap options lookupKey s =
     (case keySecretMap lookupKey of
        None \<Rightarrow> (Now (Inr \<lparr>lv_path = url options, lv_value = JUndefined\<rparr>), s)
      | Some key \<Rightarrow>
          if key = [] \<or> disabled options then
            (Now (Inr \<lparr>lv_path = url options, lv_value = JUndefined\<rparr>), s)
          else
            (case cache_get (clock s) (valuePromises s) key of
               Some lastValuePromise \<Rightarrow> (Awaited lastValuePromise, s)
             | None \<Rightarrow>
                 (Awaited (length (promises s)),
                  s\<lparr>promises := promises s @ [(key, None)],
                    getSecretCalls := getSecretCalls s @ [key],
                    valuePromises :=
                      cache_set (clock s) (expireMs options) (valuePromises s) key
                        (length (promises s))\<rparr>)))"

text \<open>
  \<open>setTimeout\<close> of Node.js takes a delay from 1 to 2147483647 milliseconds as it is and
  sets any other delay to 1.
\<close>

definition timerDelay :: "nat \<Rightarrow> nat" where
  "timerDelay d = (if 1 \<le> d \<and> d \<le> 2147483647 then d else 1)"

text \<open>
  The remote call of promise \<open>p\<close> finishes with \<open>r\<close>, and the caller that started it goes on
  after its \<open>await\<close>: on \<open>Err\<close> it calls \<open>setTimeout\<close> with \<open>errExpireMs ?? 60000\<close> for
  the timer that deletes the key.
\<close>

definition settle :: "azure_options \<Rightarrow> nat \<Rightarrow> loader_value result \<Rightarrow> azure_state \<Rightarrow> azure_state" where
  "settle options p r s =
     (if p < length (promises s) \<and> snd (promises s ! p) = None then
        (let key = fst (promises s ! p);
             s1 = s\<lparr>promises := (promises s)[p := (key, Some r)]\<rparr>
         in case r of
              Inl err \<Rightarrow>
                s1\<lparr>timers := timers s1 @
                     [(clock s + timerDelay (case errExpireMs options of
                                               None \<Rightarrow> 60000 | Some d \<Rightarrow> d), key)]\<rparr>
            | Inr v \<Rightarrow> s1)
      else s)"

text \<open>Time passes: the timers that are due run \<open>valuePromises.delete(key)\<close>.\<close>

definition advance :: "nat \<Rightarrow> azure_state \<Rightarrow> azure_state" where
  "advance dt s =
     s\<lparr>clock := clock s + dt,
       timers := filter (\<lambda>(due, key). clock s + dt < due) (timers s),
       valuePromises :=
         fold (\<lambda>(due, key) c. cache_delete c key)
           (filter (\<lambda>(due, key). \<not> clock s + dt < due) (timers s)) (valuePromises s)\<rparr>"

text \<open>\<open>reload\<close>: \<open>valuePromises.clear()\<close>.\<close>

definition reload :: "azure_state \<Rightarrow> azure_state" where
  "reload s = s\<lparr>valuePromises := cache_clear\<rparr>"

text \<open>What can happen to a loader, and a run of such events with the replies to its lookups.\<close>

datatype azure_event =
    Lookup string
  | Settle nat "loader_value result"
  | Advance nat
  | Reload

fun run ::
  "(string \<rightharpoonup> string) \<Rightarrow> azure_options \<Rightarrow> azure_event list \<Rightarrow> azure_state
    \<Rightarrow> reply list \<times> azure_state" where
  "run ksm options [] s = ([], s)"
| "run ksm options (Lookup k # evs) s =
     (case getRawValue ksm options k s of
        (r, s1) \<Rightarrow> (case run ksm options evs s1 of (rs, s2) \<Rightarrow> (r # rs, s2)))"
| "run ksm options (Settle p r # evs) s = run ksm options evs (settle options p r s)"
| "run ksm options (Advance dt # evs) s = run ksm options evs (advance dt s)"
| "run ksm options (Reload # evs) s = run ksm options evs (reload s)"

section \<open>Notions used in the statements\<close>

text \<open>
  A loader is passed over by the loop when it resolves, its call returns, and it gives
  either no truthy value or, unless the error mode is \<open>throws\<close>, an \<open>Err\<close>.
\<close>

definition passedOver :: "env_kit_options \<Rightarrow> string \<Rightarrow> config_loader loadable \<Rightarrow> bool" where
  "passedOver opts lookupKey ld =
     (case resolve ld of
        Thrown e \<Rightarrow> False
      | Returned loader \<Rightarrow>
          (case getLoaderEntry loader lookupKey of
             Thrown e \<Rightarrow> False
           | Returned (Inl err) \<Rightarrow> loaderError opts \<noteq> Some Throws
           | Returned (Inr data) \<Rightarrow> \<not> truthy (res_value data)))"

text \<open>The effects of consulting one loader, and of a loader error in \<open>log\<close> mode.\<close>

definition callEvents :: "config_loader \<Rightarrow> string \<Rightarrow> event list" where
  "callEvents loader lookupKey =
     [logKey LoaderKey (''get loader '' @ loaderType loader @ '' result for key '' @ lookupKey),
      GetValueResult (loaderType loader) lookupKey]"

definition warnEvent :: "string \<Rightarrow> error \<Rightarrow> event" where
  "warnEvent lookupKey err =
     Logged LevelWarn (''Loader error: '' @ lookupKey @ '' '' @ message err)"

definition passEvents :: "string \<Rightarrow> config_loader loadable \<Rightarrow> event list" where
  "passEvents lookupKey ld =
     (case resolve ld of
        Thrown e \<Rightarrow> []
      | Returned loader \<Rightarrow>
          callEvents loader lookupKey @
          (case getLoaderEntry loader lookupKey of
             Returned (Inl err) \<Rightarrow> [warnEvent lookupKey err]
           | _ \<Rightarrow> []))"

text \<open>The loader calls, the parser calls and the info lines among some effects.\<close>

fun calls :: "event list \<Rightarrow> string list" where
  "calls [] = []"
| "calls (GetValueResult t k # es) = t # calls es"
| "calls (e # es) = calls es"

fun parses :: "event list \<Rightarrow> jsvalue list" where
  "parses [] = []"
| "parses (Parse v # es) = v # parses es"
| "parses (e # es) = parses es"


definition resolvedType :: "config_loader loadable \<Rightarrow> string" where
  "resolvedType ld = (case resolve ld of Returned loader \<Rightarrow> loaderType loader | Thrown e \<Rightarrow> [])"





text \<open>
  A burst of lookups of one key with time passing in between, and the time that passes
  in a run.
\<close>

fun burst :: "string \<Rightarrow> azure_event list \<Rightarrow> bool" where
  "burst k [] = True"
| "burst k (Lookup k' # evs) = (k' = k \<and> burst k evs)"
| "burst k (Advance dt # evs) = burst k evs"
| "burst k (e # evs) = False"

fun elapsed :: "azure_event list \<Rightarrow> nat" where
  "elapsed [] = 0"
| "elapsed (Advance dt # evs) = dt + elapsed evs"
| "elapsed (e # evs) = elapsed evs"

fun lookups :: "azure_event list \<Rightarrow> nat" where
  "lookups [] = 0"
| "lookups (Lookup k # evs) = Suc (lookups evs)"
| "lookups (e # evs) = lookups evs"

definition backoff :: "azure_options \<Rightarrow> nat" where
  "backoff options = timerDelay (case errExpireMs options of None \<Rightarrow> 60000 | Some d \<Rightarrow> d)"

section \<open>Sample parsers, loaders and options\<close>

definition stringParser :: parser where
  "stringParser =
     \<lparr>parse = (\<lambda>v. case v of JStr s \<Rightarrow> Returned (Inr (JStr s))
                            | _ \<Rightarrow> Returned (Inl (Error ''not a string''))),
      toString = (\<lambda>v. case v of JStr s \<Rightarrow> s | _ \<Rightarrow> []),
      toLogString = (\<lambda>v f. case v of JStr s \<Rightarrow> s | _ \<Rightarrow> [])\<rparr>"

definition booleanText :: "jsvalue \<Rightarrow> string" where
  "booleanText v = (case v of JBool b \<Rightarrow> if b then ''true'' else ''false'' | _ \<Rightarrow> [])"

definition booleanParser :: parser where
  "booleanParser =
     \<lparr>parse = (\<lambda>v. if v = JStr ''true'' then Returned (Inr (JBool True))
                    else if v = JStr ''false'' then Returned (Inr (JBool False))
                    else Returned (Inl (Error ''not a boolean''))),
      toString = booleanText,
      toLogString = (\<lambda>v f. booleanText v)\<rparr>"

definition throwingParser :: parser where
  "throwingParser =
     \<lparr>parse = (\<lambda>v. Thrown (Error ''parser threw'')),
      toString = (\<lambda>v. []),
      toLogString = (\<lambda>v f. [])\<rparr>"

definition constLoader :: "string \<Rightarrow> loader_value option result outcome \<Rightarrow> config_loader" where
  "constLoader t r = \<lparr>loaderType = t, getValueResult = (\<lambda>k. r)\<rparr>"

definition valueLoader :: "string \<Rightarrow> string \<Rightarrow> jsvalue \<Rightarrow> config_loader" where
  "valueLoader t pth v = constLoader t (Returned (Inr (Some \<lparr>lv_path = pth, lv_value = v\<rparr>)))"

definition defaultOptions :: env_kit_options where
  "defaultOptions = \<lparr>namespace = None, loggingMode = None, loaderError = None\<rparr>"

definition throwsOptions :: env_kit_options where
  "throwsOptions = \<lparr>namespace = None, loggingMode = None, loaderError = Some Throws\<rparr>"

definition keySpec :: "parser \<Rightarrow> jsvalue loadable \<Rightarrow> bool \<Rightarrow> key_spec" where
  "keySpec p d nf = \<lparr>parser = p, defaultValue = d, notFoundError = nf, logFormat = None\<rparr>"

definition state0 :: env_state where
  "state0 = \<lparr>seenLog = Map.empty, events = []\<rparr>"

definition azureOptions :: "nat option \<Rightarrow> nat option \<Rightarrow> azure_options" where
  "azureOptions ttl err =
     \<lparr>disabled = False, url = ''https://kv'', expireMs = ttl, errExpireMs = err\<rparr>"

definition secretMap :: "string \<rightharpoonup> string" where
  "secretMap = [''API_SERVER'' \<mapsto> ''backend-service-url'']"

section \<open>Facts about the loop\<close>

lemma emit_emit: "emit b (emit a s) = emit (a @ b) s"
  by (simp add: emit_def)

lemma emit_Nil: "emit [] s = s"
  by (simp add: emit_def)

lemma getEntryLoop_passedOver:
  "passedOver opts k ld \<Longrightarrow>
   getEntryLoop opts k p (ld # rest) s = getEntryLoop opts k p rest (emit (passEvents k ld) s)"
  by (auto simp: passedOver_def passEvents_def callEvents_def warnEvent_def logKey_def emit_emit
      split: outcome.splits sum.splits)

lemma getEntryLoop_prefix:
  "list_all (passedOver opts k) pre \<Longrightarrow>
   getEntryLoop opts k p (pre @ rest) s =
   getEntryLoop opts k p rest (emit (concat (map (passEvents k) pre)) s)"
proof (induction pre arbitrary: s)
  case Nil
  show ?case by (simp add: emit_Nil)
next
  case (Cons ld pre)
  then show ?case
    by (simp add: getEntryLoop_passedOver emit_emit del: getEntryLoop.simps)
qed

lemma calls_append: "calls (xs @ ys) = calls xs @ calls ys"
  by (induction xs rule: calls.induct) simp_all

lemma parses_append: "parses (xs @ ys) = parses xs @ parses ys"
  by (induction xs rule: parses.induct) simp_all


lemma calls_passEvents:
  "passedOver opts k ld \<Longrightarrow> calls (passEvents k ld) = [resolvedType ld]"
  by (auto simp: passedOver_def passEvents_def callEvents_def warnEvent_def logKey_def
      resolvedType_def split: outcome.splits sum.splits)

lemma parses_passEvents: "parses (passEvents k ld) = []"
  by (auto simp: passEvents_def callEvents_def warnEvent_def logKey_def
      split: outcome.splits sum.splits)

lemma calls_prefix:
  "list_all (passedOver opts k) pre \<Longrightarrow>
   calls (concat (map (passEvents k) pre)) = map resolvedType pre"
  by (induction pre) (simp_all add: calls_append calls_passEvents [of opts k])

lemma parses_prefix: "parses (concat (map (passEvents k) pre)) = []"
  by (induction pre) (simp_all add: parses_append parses_passEvents)

lemma getEntry'_Some:
  "cfg k = Some schema \<Longrightarrow>
   getEntry' cfg loaders opts k s =
     (case getEntryLoop opts k (parser schema) loaders s of
        (Thrown e, s1) \<Rightarrow> (Thrown e, s1)
      | (Returned (Some r), s1) \<Rightarrow> (Returned r, s1)
      | (Returned None, s1) \<Rightarrow> (noValue schema k, s1))"
  by (simp add: getEntry'_def schemaEntry_def)

lemma getEntryLoop_hit:
  assumes "resolve ld = Returned loader"
    and "getValueResult loader k = Returned (Inr (Some \<lparr>lv_path = pth, lv_value = raw\<rparr>))"
    and "truthy raw"
  shows "getEntryLoop opts k p (ld # post) s =
     ((case parse p raw of
         Thrown e \<Rightarrow> Thrown e
       | Returned (Inl e) \<Rightarrow> Returned (Some (Inl e))
       | Returned (Inr v) \<Rightarrow>
           Returned (Some (Inr \<lparr>res_loaderType = Some (loaderType loader), res_path = Some pth,
                                 res_value = v\<rparr>))),
      emit (callEvents loader k @ [Parse raw]) s)"
  using assms
  by (simp add: getLoaderEntry_def callEvents_def emit_emit split: outcome.splits sum.splits)

text \<open>
  The private lookup when the loaders before \<open>ld\<close> are passed over and \<open>ld\<close> gives a
  truthy raw value: the parser's outcome on that value, whatever follows \<open>ld\<close>.
\<close>

lemma getEntry'_hit:
  assumes "cfg k = Some schema"
    and "list_all (passedOver opts k) pre"
    and "resolve ld = Returned loader"
    and "getValueResult loader k = Returned (Inr (Some \<lparr>lv_path = pth, lv_value = raw\<rparr>))"
    and "truthy raw"
  shows "getEntry' cfg (pre @ ld # rest) opts k s =
     ((case parse (parser schema) raw of
         Thrown e \<Rightarrow> Thrown e
       | Returned (Inl e) \<Rightarrow> Returned (Inl e)
       | Returned (Inr v) \<Rightarrow>
           Returned (Inr \<lparr>res_loaderType = Some (loaderType loader), res_path = Some pth,
                           res_value = v\<rparr>)),
      emit (concat (map (passEvents k) pre) @ callEvents loader k @ [Parse raw]) s)"
proof -
  have "getEntryLoop opts k (parser schema) (pre @ ld # rest) s =
     ((case parse (parser schema) raw of
         Thrown e \<Rightarrow> Thrown e
       | Returned (Inl e) \<Rightarrow> Returned (Some (Inl e))
       | Returned (Inr v) \<Rightarrow>
           Returned (Some (Inr \<lparr>res_loaderType = Some (loaderType loader), res_path = Some pth,
                                 res_value = v\<rparr>))),
      emit (concat (map (passEvents k) pre) @ callEvents loader k @ [Parse raw]) s)"
    using assms(2) getEntryLoop_hit [OF assms(3-5)]
    by (simp add: getEntryLoop_prefix emit_emit del: getEntryLoop.simps)
  with assms(1) show ?thesis
    by (simp add: getEntry'_Some [of cfg k schema] split: outcome.splits sum.splits)
qed

section \<open>Short circuit at the first value\<close>

text \<open>
  C1. Let the key be declared, let the loaders before \<open>ld\<close> be passed over, and let \<open>ld\<close>
  return a truthy raw value with a path. Then \<open>getEntry\<close> gives what the key's parser
  makes of that raw value: on success the result carries the type of \<open>ld\<close>, the path
  \<open>ld\<close> returned and the parsed value. The lookup is the same whatever loaders follow
  \<open>ld\<close>; the loaders called are those up to \<open>ld\<close>, each once and in order, and the parser
  is called once, on the raw value.
\<close>

theorem first_value_short_circuits:
  assumes "cfg k = Some schema"
    and "list_all (passedOver opts k) pre"
    and "resolve ld = Returned loader"
    and "getValueResult loader k = Returned (Inr (Some \<lparr>lv_path = pth, lv_value = raw\<rparr>))"
    and "truthy raw"
  shows "fst (getEntry cfg (pre @ ld # post) opts k s) =
           (case parse (parser schema) raw of
              Thrown e \<Rightarrow> Thrown e
            | Returned (Inl e) \<Rightarrow> Returned (Inl e)
            | Returned (Inr v) \<Rightarrow>
                Returned (Inr \<lparr>res_loaderType = Some (loaderType loader), res_path = Some pth,
                               res_value = v\<rparr>))
       \<and> getEntry cfg (pre @ ld # post) opts k s = getEntry cfg (pre @ [ld]) opts k s
       \<and> calls (events (snd (getEntry cfg (pre @ ld # post) opts k s))) =
           calls (events s) @ map resolvedType pre @ [loaderType loader]
       \<and> parses (events (snd (getEntry cfg (pre @ ld # post) opts k s))) =
           parses (events s) @ [raw]"
proof -
  have priv: "getEntry' cfg (pre @ ld # rest) opts k s =
     ((case parse (parser schema) raw of
         Thrown e \<Rightarrow> Thrown e
       | Returned (Inl e) \<Rightarrow> Returned (Inl e)
       | Returned (Inr v) \<Rightarrow>
           Returned (Inr \<lparr>res_loaderType = Some (loaderType loader), res_path = Some pth,
                           res_value = v\<rparr>)),
      emit (concat (map (passEvents k) pre) @ callEvents loader k @ [Parse raw]) s)" for rest
    using assms by (rule getEntry'_hit)
  have same: "getEntry cfg (pre @ ld # post) opts k s = getEntry cfg (pre @ [ld]) opts k s"
    by (simp add: getEntry_def schemaEntry_def priv)
  have ev: "calls (events (snd (getEntry cfg (pre @ ld # post) opts k s))) =
              calls (events s) @ map resolvedType pre @ [loaderType loader]
          \<and> parses (events (snd (getEntry cfg (pre @ ld # post) opts k s))) =
              parses (events s) @ [raw]"
    using assms(1,2)
    by (simp add: getEntry_def schemaEntry_def priv printLog_def emit_def calls_append parses_append
        calls_prefix [of opts k] parses_prefix callEvents_def logKey_def Let_def
        split: outcome.splits sum.splits)
  have res: "fst (getEntry cfg (pre @ ld # post) opts k s) =
           (case parse (parser schema) raw of
              Thrown e \<Rightarrow> Thrown e
            | Returned (Inl e) \<Rightarrow> Returned (Inl e)
            | Returned (Inr v) \<Rightarrow>
                Returned (Inr \<lparr>res_loaderType = Some (loaderType loader), res_path = Some pth,
                               res_value = v\<rparr>))"
    using assms(1)
    by (simp add: getEntry_def schemaEntry_def priv split: outcome.splits sum.splits)
  from res same ev show ?thesis by blast
qed

theorem first_value_short_circuits_witness:
  "list_all (passedOver defaultOptions ''PORT'') [Direct (constLoader ''dotenv'' (Returned (Inr None)))]
   \<and> truthy (JStr ''8080'')
   \<and> fst (getEntry [''PORT'' \<mapsto> keySpec stringParser (Direct JUndefined) False]
        ([Direct (constLoader ''dotenv'' (Returned (Inr None)))]
           @ Direct (valueLoader ''env'' ''process.env'' (JStr ''8080''))
           # [Deferred (Thrown (Error ''never built''))])
        defaultOptions ''PORT'' state0) =
       Returned (Inr \<lparr>res_loaderType = Some ''env'', res_path = Some ''process.env'',
                      res_value = JStr ''8080''\<rparr>)
   \<and> calls (events (snd (getEntry [''PORT'' \<mapsto> keySpec stringParser (Direct JUndefined) False]
        ([Direct (constLoader ''dotenv'' (Returned (Inr None)))]
           @ Direct (valueLoader ''env'' ''process.env'' (JStr ''8080''))
           # [Deferred (Thrown (Error ''never built''))])
        defaultOptions ''PORT'' state0))) = [''dotenv'', ''env'']"
proof -
  let ?cfg = "[''PORT'' \<mapsto> keySpec stringParser (Direct JUndefined) False]"
  let ?pre = "[Direct (constLoader ''dotenv'' (Returned (Inr None)))]"
  let ?loader = "valueLoader ''env'' ''process.env'' (JStr ''8080'')"
  let ?post = "[Deferred (Thrown (Error ''never built''))]"
  have h1: "?cfg ''PORT'' = Some (keySpec stringParser (Direct JUndefined) False)"
    by simp
  have h2: "list_all (passedOver defaultOptions ''PORT'') ?pre"
    by (simp add: passedOver_def getLoaderEntry_def constLoader_def defaultOptions_def)
  have h3: "resolve (Direct ?loader) = Returned ?loader"
    by simp
  have h4: "getValueResult ?loader ''PORT'' =
              Returned (Inr (Some \<lparr>lv_path = ''process.env'', lv_value = JStr ''8080''\<rparr>))"
    by (simp add: valueLoader_def constLoader_def)
  have h5: "truthy (JStr ''8080'')"
    by simp
  note inst = first_value_short_circuits [of ?cfg "''PORT''"
      "keySpec stringParser (Direct JUndefined) False" defaultOptions ?pre "Direct ?loader"
      ?loader "''process.env''" "JStr ''8080''" ?post state0, OF h1 h2 h3 h4 h5]
  have r: "fst (getEntry ?cfg (?pre @ Direct ?loader # ?post) defaultOptions ''PORT'' state0) =
       Returned (Inr \<lparr>res_loaderType = Some ''env'', res_path = Some ''process.env'',
                      res_value = JStr ''8080''\<rparr>)"
    using inst [THEN conjunct1]
    by (simp add: keySpec_def stringParser_def valueLoader_def constLoader_def)
  have c: "calls (events (snd (getEntry ?cfg (?pre @ Direct ?loader # ?post) defaultOptions
             ''PORT'' state0))) = [''dotenv'', ''env'']"
    using inst [THEN conjunct2, THEN conjunct2, THEN conjunct1]
    by (simp add: resolvedType_def valueLoader_def constLoader_def state0_def)
  from h2 h5 r c show ?thesis by blast
qed

lemma getEntry'_cong:
  assumes "cfg k = Some schema"
    and "getEntryLoop opts k (parser schema) ls s = getEntryLoop opts k (parser schema) ls' s'"
  shows "getEntry' cfg ls opts k s = getEntry' cfg ls' opts k s'"
  using assms by (simp add: getEntry'_Some [of cfg k schema])

lemma getEntry_cong:
  assumes "getEntry' cfg ls opts k s = getEntry' cfg ls' opts k s'"
  shows "getEntry cfg ls opts k s = getEntry cfg ls' opts k s'"
  using assms by (simp add: getEntry_def schemaEntry_def)

lemma getEntry_skip:
  assumes "cfg k = Some schema"
    and "list_all (passedOver opts k) pre"
  shows "getEntry cfg (pre @ rest) opts k s =
         getEntry cfg rest opts k (emit (concat (map (passEvents k) pre)) s)"
proof (rule getEntry_cong)
  show "getEntry' cfg (pre @ rest) opts k s =
        getEntry' cfg rest opts k (emit (concat (map (passEvents k) pre)) s)"
    using assms(1)
  proof (rule getEntry'_cong)
    show "getEntryLoop opts k (parser schema) (pre @ rest) s =
          getEntryLoop opts k (parser schema) rest (emit (concat (map (passEvents k) pre)) s)"
      using assms(2) by (rule getEntryLoop_prefix)
  qed
qed

lemma getEntry_Err:
  "getEntry' cfg ls opts k s = (Returned (Inl e), s') \<Longrightarrow>
   getEntry cfg ls opts k s = (Returned (Inl e), s')"
  by (simp add: getEntry_def schemaEntry_def)

section \<open>Loader failures\<close>

lemma getEntryLoop_throws:
  assumes "resolve ld = Returned loader"
    and "getValueResult loader k = Returned (Inl err)"
    and "loaderError opts = Some Throws"
  shows "getEntryLoop opts k p (ld # post) s =
           (Returned (Some (Inl err)), emit (callEvents loader k) s)"
  using assms by (simp add: getLoaderEntry_def callEvents_def)

lemma passedOver_Err:
  assumes "resolve ld = Returned loader"
    and "getValueResult loader k = Returned (Inl err)"
    and "loaderError opts \<noteq> Some Throws"
  shows "passedOver opts k ld"
    and "passEvents k ld = callEvents loader k @ [warnEvent k err]"
  using assms by (simp_all add: passedOver_def passEvents_def getLoaderEntry_def)

text \<open>
  C3. Let the key be declared, let the loaders before \<open>ld\<close> be passed over, and let the
  call of \<open>ld\<close> give \<open>Err err\<close>. Under \<open>loaderError = throws\<close> the lookup is \<open>Err err\<close>,
  and its effects end with the call of \<open>ld\<close>: no later loader is resolved or called,
  whatever it would return. In any other mode (\<open>log\<close>, or none given) the error is
  logged at level \<open>Warn\<close> and the lookup goes on with the loaders after \<open>ld\<close>, as if it
  had started with them.
\<close>

theorem loader_failure_aborts_or_is_logged:
  assumes "cfg k = Some schema"
    and "list_all (passedOver opts k) pre"
    and "resolve ld = Returned loader"
    and "getValueResult loader k = Returned (Inl err)"
  shows "(loaderError opts = Some Throws \<longrightarrow>
            getEntry cfg (pre @ ld # post) opts k s =
              (Returned (Inl err),
               emit (concat (map (passEvents k) pre) @ callEvents loader k) s))
       \<and> (loaderError opts \<noteq> Some Throws \<longrightarrow>
            getEntry cfg (pre @ ld # post) opts k s =
              getEntry cfg post opts k
                (emit (concat (map (passEvents k) pre) @ callEvents loader k
                         @ [Logged LevelWarn (''Loader error: '' @ k @ '' '' @ message err)]) s))"
proof (intro conjI impI)
  assume throws: "loaderError opts = Some Throws"
  have "getEntryLoop opts k (parser schema) (pre @ ld # post) s =
          (Returned (Some (Inl err)),
           emit (concat (map (passEvents k) pre) @ callEvents loader k) s)"
    using assms(2) getEntryLoop_throws [OF assms(3,4) throws]
    by (simp add: getEntryLoop_prefix emit_emit del: getEntryLoop.simps)
  with assms(1) have "getEntry' cfg (pre @ ld # post) opts k s =
          (Returned (Inl err), emit (concat (map (passEvents k) pre) @ callEvents loader k) s)"
    by (simp add: getEntry'_Some [of cfg k schema])
  then show "getEntry cfg (pre @ ld # post) opts k s =
          (Returned (Inl err), emit (concat (map (passEvents k) pre) @ callEvents loader k) s)"
    by (rule getEntry_Err)
next
  assume logs: "loaderError opts \<noteq> Some Throws"
  have "list_all (passedOver opts k) (pre @ [ld])"
    using assms(2) passedOver_Err(1) [OF assms(3,4) logs] by simp
  with assms(1) have "getEntry cfg ((pre @ [ld]) @ post) opts k s =
         getEntry cfg post opts k (emit (concat (map (passEvents k) (pre @ [ld]))) s)"
    by (rule getEntry_skip)
  then show "getEntry cfg (pre @ ld # post) opts k s =
       getEntry cfg post opts k
         (emit (concat (map (passEvents k) pre) @ callEvents loader k
                  @ [Logged LevelWarn (''Loader error: '' @ k @ '' '' @ message err)]) s)"
    by (simp add: passedOver_Err(2) [OF assms(3,4) logs] warnEvent_def)
qed

theorem loader_failure_aborts_or_is_logged_witness:
  "getEntry [''PORT'' \<mapsto> keySpec stringParser (Direct JUndefined) False]
     ([] @ Direct (constLoader ''kv'' (Returned (Inl (Error ''timeout''))))
         # [Direct (valueLoader ''env'' ''process.env'' (JStr ''8080''))])
     throwsOptions ''PORT'' state0 =
     (Returned (Inl (Error ''timeout'')),
      \<lparr>seenLog = Map.empty,
       events = [Logged LevelNone ''get loader kv result for key PORT'',
                 GetValueResult ''kv'' ''PORT'']\<rparr>)
   \<and> fst (getEntry [''PORT'' \<mapsto> keySpec stringParser (Direct JUndefined) False]
     ([] @ Direct (constLoader ''kv'' (Returned (Inl (Error ''timeout''))))
         # [Direct (valueLoader ''env'' ''process.env'' (JStr ''8080''))])
     defaultOptions ''PORT'' state0) =
     Returned (Inr \<lparr>res_loaderType = Some ''env'', res_path = Some ''process.env'',
                    res_value = JStr ''8080''\<rparr>)
   \<and> events (snd (getEntry [''PORT'' \<mapsto> keySpec stringParser (Direct JUndefined) False]
     ([] @ Direct (constLoader ''kv'' (Returned (Inl (Error ''timeout''))))
         # [Direct (valueLoader ''env'' ''process.env'' (JStr ''8080''))])
     defaultOptions ''PORT'' state0)) =
     [Logged LevelNone ''get loader kv result for key PORT'',
      GetValueResult ''kv'' ''PORT'',
      Logged LevelWarn ''Loader error: PORT timeout'',
      Logged LevelNone ''get loader env result for key PORT'',
      GetValueResult ''env'' ''PORT'',
      Parse (JStr ''8080''),
      Logged LevelInfo ''ConfigVariables[env]: PORT [8080] from process.env'']"
proof -
  let ?cfg = "[''PORT'' \<mapsto> keySpec stringParser (Direct JUndefined) False]"
  let ?kv = "constLoader ''kv'' (Returned (Inl (Error ''timeout'')))"
  let ?post = "[Direct (valueLoader ''env'' ''process.env'' (JStr ''8080''))]"
  have h1: "?cfg ''PORT'' = Some (keySpec stringParser (Direct JUndefined) False)"
    by simp
  have h2: "list_all (passedOver opts ''PORT'') []" for opts
    by simp
  have h3: "resolve (Direct ?kv) = Returned ?kv"
    by simp
  have h4: "getValueResult ?kv ''PORT'' = Returned (Inl (Error ''timeout''))"
    by (simp add: constLoader_def)
  have t: "loaderError throwsOptions = Some Throws"
    by (simp add: throwsOptions_def)
  have l: "loaderError defaultOptions \<noteq> Some Throws"
    by (simp add: defaultOptions_def)
  note inst = loader_failure_aborts_or_is_logged [of ?cfg "''PORT''"
      "keySpec stringParser (Direct JUndefined) False" _ "[]" "Direct ?kv" ?kv
      "Error ''timeout''" ?post state0, OF h1 h2 h3 h4]
  have a: "getEntry ?cfg ([] @ Direct ?kv # ?post) throwsOptions ''PORT'' state0 =
     (Returned (Inl (Error ''timeout'')),
      \<lparr>seenLog = Map.empty,
       events = [Logged LevelNone ''get loader kv result for key PORT'',
                 GetValueResult ''kv'' ''PORT'']\<rparr>)"
    using inst [of throwsOptions, THEN conjunct1, rule_format, OF t]
    by (simp add: emit_def callEvents_def logKey_def constLoader_def state0_def)
  have b: "getEntry ?cfg ([] @ Direct ?kv # ?post) defaultOptions ''PORT'' state0 =
     getEntry ?cfg ?post defaultOptions ''PORT''
       \<lparr>seenLog = Map.empty,
        events = [Logged LevelNone ''get loader kv result for key PORT'',
                  GetValueResult ''kv'' ''PORT'',
                  Logged LevelWarn ''Loader error: PORT timeout'']\<rparr>"
    using inst [of defaultOptions, THEN conjunct2, rule_format, OF l]
    by (simp add: emit_def callEvents_def logKey_def constLoader_def state0_def)
  have c: "getEntry ?cfg ?post defaultOptions ''PORT''
       \<lparr>seenLog = Map.empty,
        events = [Logged LevelNone ''get loader kv result for key PORT'',
                  GetValueResult ''kv'' ''PORT'',
                  Logged LevelWarn ''Loader error: PORT timeout'']\<rparr> =
     (Returned (Inr \<lparr>res_loaderType = Some ''env'', res_path = Some ''process.env'',
                     res_value = JStr ''8080''\<rparr>),
      \<lparr>seenLog = [''PORT'' \<mapsto> ''ConfigVariables[env]: PORT [8080] from process.env''],
       events = [Logged LevelNone ''get loader kv result for key PORT'',
                 GetValueResult ''kv'' ''PORT'',
                 Logged LevelWarn ''Loader error: PORT timeout'',
                 Logged LevelNone ''get loader env result for key PORT'',
                 GetValueResult ''env'' ''PORT'',
                 Parse (JStr ''8080''),
                 Logged LevelInfo ''ConfigVariables[env]: PORT [8080] from process.env'']\<rparr>)"
    by (simp add: getEntry_def schemaEntry_def getEntry'_def getLoaderEntry_def valueLoader_def constLoader_def
        keySpec_def stringParser_def defaultOptions_def emit_def logKey_def printLog_def
        logLine_def printValue_def Let_def)
  from a b c show ?thesis by simp
qed

section \<open>Parse failures\<close>

text \<open>
  C4. Let the key be declared, let the loaders before \<open>ld\<close> be passed over, let \<open>ld\<close>
  return a truthy raw value and let the key's parser fail on it with \<open>e\<close>. Then, in every
  error mode and whatever the key's default, \<open>getEntry\<close> gives \<open>Err e\<close>, and its effects
  end with that call of the parser: no later loader is consulted, nothing is logged as
  a result.
\<close>

theorem parse_failure_is_the_outcome:
  assumes "cfg k = Some schema"
    and "list_all (passedOver opts k) pre"
    and "resolve ld = Returned loader"
    and "getValueResult loader k = Returned (Inr (Some \<lparr>lv_path = pth, lv_value = raw\<rparr>))"
    and "truthy raw"
    and "parse (parser schema) raw = Returned (Inl e)"
  shows "getEntry cfg (pre @ ld # post) opts k s =
           (Returned (Inl e),
            emit (concat (map (passEvents k) pre) @ callEvents loader k @ [Parse raw]) s)"
proof -
  have "getEntry' cfg (pre @ ld # post) opts k s =
     ((case parse (parser schema) raw of
         Thrown e \<Rightarrow> Thrown e
       | Returned (Inl e) \<Rightarrow> Returned (Inl e)
       | Returned (Inr v) \<Rightarrow>
           Returned (Inr \<lparr>res_loaderType = Some (loaderType loader), res_path = Some pth,
                           res_value = v\<rparr>)),
      emit (concat (map (passEvents k) pre) @ callEvents loader k @ [Parse raw]) s)"
    using assms(1-5) by (rule getEntry'_hit)
  then have "getEntry' cfg (pre @ ld # post) opts k s =
     (Returned (Inl e),
      emit (concat (map (passEvents k) pre) @ callEvents loader k @ [Parse raw]) s)"
    by (simp add: assms(6))
  then show ?thesis by (rule getEntry_Err)
qed

theorem parse_failure_is_the_outcome_witness:
  "truthy (JStr ''yes'')
   \<and> parse booleanParser (JStr ''yes'') = Returned (Inl (Error ''not a boolean''))
   \<and> getEntry [''DEBUG'' \<mapsto> keySpec booleanParser (Direct (JBool True)) False]
       ([] @ Direct (valueLoader ''dotenv'' ''.env'' (JStr ''yes''))
           # [Direct (valueLoader ''env'' ''process.env'' (JStr ''true''))])
       defaultOptions ''DEBUG'' state0 =
       (Returned (Inl (Error ''not a boolean'')),
        \<lparr>seenLog = Map.empty,
         events = [Logged LevelNone ''get loader dotenv result for key DEBUG'',
                   GetValueResult ''dotenv'' ''DEBUG'',
                   Parse (JStr ''yes'')]\<rparr>)"
proof -
  let ?schema = "keySpec booleanParser (Direct (JBool True)) False"
  let ?cfg = "[''DEBUG'' \<mapsto> ?schema]"
  let ?loader = "valueLoader ''dotenv'' ''.env'' (JStr ''yes'')"
  let ?post = "[Direct (valueLoader ''env'' ''process.env'' (JStr ''true''))]"
  have h1: "?cfg ''DEBUG'' = Some ?schema"
    by simp
  have h2: "list_all (passedOver defaultOptions ''DEBUG'') []"
    by simp
  have h3: "resolve (Direct ?loader) = Returned ?loader"
    by simp
  have h4: "getValueResult ?loader ''DEBUG'' =
              Returned (Inr (Some \<lparr>lv_path = ''.env'', lv_value = JStr ''yes''\<rparr>))"
    by (simp add: valueLoader_def constLoader_def)
  have h5: "truthy (JStr ''yes'')"
    by simp
  have h6: "parse (parser ?schema) (JStr ''yes'') = Returned (Inl (Error ''not a boolean''))"
    by (simp add: keySpec_def booleanParser_def)
  have h6': "parse booleanParser (JStr ''yes'') = Returned (Inl (Error ''not a boolean''))"
    by (simp add: booleanParser_def)
  have "getEntry ?cfg ([] @ Direct ?loader # ?post) defaultOptions ''DEBUG'' state0 =
       (Returned (Inl (Error ''not a boolean'')),
        \<lparr>seenLog = Map.empty,
         events = [Logged LevelNone ''get loader dotenv result for key DEBUG'',
                   GetValueResult ''dotenv'' ''DEBUG'',
                   Parse (JStr ''yes'')]\<rparr>)"
    using parse_failure_is_the_outcome [of ?cfg "''DEBUG''" ?schema defaultOptions "[]"
        "Direct ?loader" ?loader "''.env''" "JStr ''yes''" "Error ''not a boolean''" ?post state0,
        OF h1 h2 h3 h4 h5 h6]
    by (simp add: emit_def callEvents_def logKey_def valueLoader_def constLoader_def state0_def)
  with h5 h6' show ?thesis by simp
qed

section \<open>Falsy raw values\<close>

lemma passedOver_falsy:
  assumes "resolve ld = Returned loader"
    and "getValueResult loader k = Returned (Inr (Some \<lparr>lv_path = pth, lv_value = raw\<rparr>))"
    and "\<not> truthy raw"
  shows "passedOver opts k ld"
    and "passEvents k ld = callEvents loader k"
  using assms by (simp_all add: passedOver_def passEvents_def getLoaderEntry_def)

lemma getEntry_exhausted:
  assumes "cfg k = Some schema"
    and "list_all (passedOver opts k) ls"
  shows "fst (getEntry cfg ls opts k s) = noValue schema k"
proof -
  have "getEntryLoop opts k (parser schema) (ls @ []) s =
        getEntryLoop opts k (parser schema) [] (emit (concat (map (passEvents k) ls)) s)"
    using assms(2) by (rule getEntryLoop_prefix)
  then have "getEntry' cfg ls opts k s =
        (noValue schema k, emit (concat (map (passEvents k) ls)) s)"
    using assms(1) by (simp add: getEntry'_Some [of cfg k schema])
  then show ?thesis
    using assms(1) by (simp add: getEntry_def schemaEntry_def split: outcome.splits sum.splits)
qed

text \<open>
  C10. Let the key be declared, let the loaders before \<open>ld\<close> be passed over, and let
  \<open>ld\<close> return a raw value that is not truthy (\<open>false\<close>, \<open>0\<close>, the empty string, also
  \<open>null\<close>). Then the lookup is the one with \<open>ld\<close> returning \<open>undefined\<close> under the same
  path; it goes on with the loaders after \<open>ld\<close>, the effects of \<open>ld\<close> being its call
  alone and no call of the parser; and when the remaining loaders are passed over too,
  the outcome is the one for no value: default, required or soft-missing.
\<close>

theorem falsy_value_is_absent:
  assumes "cfg k = Some schema"
    and "list_all (passedOver opts k) pre"
    and "resolve ld = Returned loader"
    and "getValueResult loader k = Returned (Inr (Some \<lparr>lv_path = pth, lv_value = raw\<rparr>))"
    and "\<not> truthy raw"
  shows "getEntry cfg (pre @ ld # post) opts k s =
           getEntry cfg
             (pre @ Direct (loader\<lparr>getValueResult :=
                       (\<lambda>key. Returned (Inr (Some \<lparr>lv_path = pth, lv_value = JUndefined\<rparr>)))\<rparr>)
                # post) opts k s
       \<and> getEntry cfg (pre @ ld # post) opts k s =
           getEntry cfg post opts k
             (emit (concat (map (passEvents k) pre) @ callEvents loader k) s)
       \<and> (list_all (passedOver opts k) post \<longrightarrow>
            fst (getEntry cfg (pre @ ld # post) opts k s) = noValue schema k)"
proof -
  let ?absent = "loader\<lparr>getValueResult :=
                   (\<lambda>key. Returned (Inr (Some \<lparr>lv_path = pth, lv_value = JUndefined\<rparr>)))\<rparr>"
  have skip: "getEntry cfg ((pre @ [l]) @ post) opts k s =
         getEntry cfg post opts k (emit (concat (map (passEvents k) (pre @ [l]))) s)"
    if "passedOver opts k l" for l
    using assms(1)
  proof (rule getEntry_skip)
    show "list_all (passedOver opts k) (pre @ [l])"
      using assms(2) that by simp
  qed
  have here: "getEntry cfg (pre @ ld # post) opts k s =
           getEntry cfg post opts k
             (emit (concat (map (passEvents k) pre) @ callEvents loader k) s)"
    using skip [OF passedOver_falsy(1) [OF assms(3-5)]]
    by (simp add: passedOver_falsy(2) [OF assms(3-5)])
  have r: "resolve (Direct ?absent) = Returned ?absent"
    by simp
  have g: "getValueResult ?absent k =
             Returned (Inr (Some \<lparr>lv_path = pth, lv_value = JUndefined\<rparr>))"
    by simp
  have u: "\<not> truthy JUndefined"
    by simp
  have there: "getEntry cfg (pre @ Direct ?absent # post) opts k s =
           getEntry cfg post opts k
             (emit (concat (map (passEvents k) pre) @ callEvents loader k) s)"
    using skip [OF passedOver_falsy(1) [OF r g u]]
    by (simp add: passedOver_falsy(2) [OF r g u] callEvents_def)
  have rest: "fst (getEntry cfg (pre @ ld # post) opts k s) = noValue schema k"
    if "list_all (passedOver opts k) post"
    using assms(1) that by (simp add: here getEntry_exhausted [of cfg k schema])
  from here there rest show ?thesis by simp
qed

theorem falsy_value_is_absent_witness:
  "\<not> truthy (JBool False) \<and> \<not> truthy (JNum 0) \<and> \<not> truthy (JStr [])
   \<and> fst (getEntry [''PORT'' \<mapsto> keySpec throwingParser (Direct (JNum 3000)) False]
        ([] @ Direct (valueLoader ''env'' ''process.env'' (JBool False))
            # [Direct (constLoader ''file'' (Returned (Inr None)))])
        defaultOptions ''PORT'' state0) =
       Returned (Inr \<lparr>res_loaderType = Some ''defaultValue'', res_path = Some ''key:PORT'',
                      res_value = JNum 3000\<rparr>)
   \<and> fst (getEntry [''PORT'' \<mapsto> keySpec throwingParser (Direct (JNum 3000)) False]
        ([] @ Direct (valueLoader ''env'' ''process.env'' (JNum 0))
            # [Direct (constLoader ''file'' (Returned (Inr None)))])
        defaultOptions ''PORT'' state0) =
       Returned (Inr \<lparr>res_loaderType = Some ''defaultValue'', res_path = Some ''key:PORT'',
                      res_value = JNum 3000\<rparr>)
   \<and> fst (getEntry [''PORT'' \<mapsto> keySpec throwingParser (Direct (JNum 3000)) False]
        ([] @ Direct (valueLoader ''env'' ''process.env'' (JStr []))
            # [Direct (constLoader ''file'' (Returned (Inr None)))])
        defaultOptions ''PORT'' state0) =
       Returned (Inr \<lparr>res_loaderType = Some ''defaultValue'', res_path = Some ''key:PORT'',
                      res_value = JNum 3000\<rparr>)"
proof -
  let ?schema = "keySpec throwingParser (Direct (JNum 3000)) False"
  let ?cfg = "[''PORT'' \<mapsto> ?schema]"
  let ?post = "[Direct (constLoader ''file'' (Returned (Inr None)))]"
  have h1: "?cfg ''PORT'' = Some ?schema"
    by simp
  have h2: "list_all (passedOver defaultOptions ''PORT'') []"
    by simp
  have h6: "list_all (passedOver defaultOptions ''PORT'') ?post"
    by (simp add: passedOver_def getLoaderEntry_def constLoader_def)
  have nv: "noValue ?schema ''PORT'' =
       Returned (Inr \<lparr>res_loaderType = Some ''defaultValue'', res_path = Some ''key:PORT'',
                      res_value = JNum 3000\<rparr>)"
    by (simp add: noValue_def keySpec_def)
  have one: "fst (getEntry ?cfg ([] @ Direct (valueLoader ''env'' ''process.env'' raw) # ?post)
                defaultOptions ''PORT'' state0) =
       Returned (Inr \<lparr>res_loaderType = Some ''defaultValue'', res_path = Some ''key:PORT'',
                      res_value = JNum 3000\<rparr>)"
    if f: "\<not> truthy raw" for raw
  proof -
    have h3: "resolve (Direct (valueLoader ''env'' ''process.env'' raw)) =
                Returned (valueLoader ''env'' ''process.env'' raw)"
      by simp
    have h4: "getValueResult (valueLoader ''env'' ''process.env'' raw) ''PORT'' =
                Returned (Inr (Some \<lparr>lv_path = ''process.env'', lv_value = raw\<rparr>))"
      by (simp add: valueLoader_def constLoader_def)
    show ?thesis
      using falsy_value_is_absent [of ?cfg "''PORT''" ?schema defaultOptions "[]"
          "Direct (valueLoader ''env'' ''process.env'' raw)" "valueLoader ''env'' ''process.env'' raw"
          "''process.env''" raw ?post state0, OF h1 h2 h3 h4 f,
          THEN conjunct2, THEN conjunct2, rule_format, OF h6]
      by (simp only: nv)
  qed
  have f1: "\<not> truthy (JBool False)" and f2: "\<not> truthy (JNum 0)" and f3: "\<not> truthy (JStr [])"
    by simp_all
  from f1 f2 f3 one [OF f1] one [OF f2] one [OF f3] show ?thesis by blast
qed

section \<open>No value from any loader\<close>

lemma noValue_resolve:
  "noValue schema k =
     (case resolve (defaultValue schema) of
        Thrown e \<Rightarrow> Thrown e
      | Returned dflt \<Rightarrow>
          if dflt \<noteq> JUndefined then
            Returned (Inr \<lparr>res_loaderType = Some ''defaultValue'',
                           res_path = Some (''key:'' @ k), res_value = dflt\<rparr>)
          else if notFoundError schema then
            Returned (Inl (VariableLookupError k (''Missing required value for key: '' @ k)))
          else
            Returned (Inr \<lparr>res_loaderType = None, res_path = Some k, res_value = JUndefined\<rparr>))"
  by (simp add: noValue_def split: loadable.splits jsvalue.splits outcome.splits)

text \<open>
  C2, as the code has it. Let the key be declared and let every loader be passed over.
  If the key's default resolves to a value other than \<open>undefined\<close>, \<open>getEntry\<close> gives
  \<open>Ok\<close> with that value, \<open>loaderType = "defaultValue"\<close> and \<open>path = "key:<name>"\<close>. If
  there is no default, or the default resolves to \<open>undefined\<close>, then with
  \<open>notFoundError\<close> set it gives the missing-required-value error for that key, and
  otherwise \<open>Ok\<close> with the value \<open>undefined\<close>.
\<close>

theorem no_value_outcome:
  assumes "cfg k = Some schema"
    and "list_all (passedOver opts k) loaders"
  shows "(\<forall>dflt. resolve (defaultValue schema) = Returned dflt \<and> dflt \<noteq> JUndefined \<longrightarrow>
            fst (getEntry cfg loaders opts k s) =
              Returned (Inr \<lparr>res_loaderType = Some ''defaultValue'',
                             res_path = Some (''key:'' @ k), res_value = dflt\<rparr>))
       \<and> (resolve (defaultValue schema) = Returned JUndefined \<and> notFoundError schema \<longrightarrow>
            fst (getEntry cfg loaders opts k s) =
              Returned (Inl (VariableLookupError k (''Missing required value for key: '' @ k))))
       \<and> (resolve (defaultValue schema) = Returned JUndefined \<and> \<not> notFoundError schema \<longrightarrow>
            fst (getEntry cfg loaders opts k s) =
              Returned (Inr \<lparr>res_loaderType = None, res_path = Some k,
                             res_value = JUndefined\<rparr>))"
proof -
  have "fst (getEntry cfg loaders opts k s) = noValue schema k"
    using assms by (rule getEntry_exhausted)
  then show ?thesis
    by (simp add: noValue_resolve)
qed

theorem no_value_outcome_witness:
  "fst (getEntry [''PORT'' \<mapsto> keySpec stringParser (Deferred (Returned (JStr ''4637''))) True]
          [] defaultOptions ''PORT'' state0) =
     Returned (Inr \<lparr>res_loaderType = Some ''defaultValue'', res_path = Some ''key:PORT'',
                    res_value = JStr ''4637''\<rparr>)
   \<and> fst (getEntry [''JWT_SECRET'' \<mapsto> keySpec stringParser (Direct JUndefined) True]
          [Direct (constLoader ''env'' (Returned (Inr None)))] defaultOptions ''JWT_SECRET'' state0) =
     Returned (Inl (VariableLookupError ''JWT_SECRET''
                      ''Missing required value for key: JWT_SECRET''))
   \<and> fst (getEntry [''DEBUG'' \<mapsto> keySpec booleanParser (Direct JUndefined) False]
          [Direct (constLoader ''env'' (Returned (Inr None)))] defaultOptions ''DEBUG'' state0) =
     Returned (Inr \<lparr>res_loaderType = None, res_path = Some ''DEBUG'', res_value = JUndefined\<rparr>)"
proof -
  let ?port = "keySpec stringParser (Deferred (Returned (JStr ''4637''))) True"
  let ?jwt = "keySpec stringParser (Direct JUndefined) True"
  let ?debug = "keySpec booleanParser (Direct JUndefined) False"
  let ?env = "[Direct (constLoader ''env'' (Returned (Inr None)))]"
  have p1: "[''PORT'' \<mapsto> ?port] ''PORT'' = Some ?port"
    and j1: "[''JWT_SECRET'' \<mapsto> ?jwt] ''JWT_SECRET'' = Some ?jwt"
    and d1: "[''DEBUG'' \<mapsto> ?debug] ''DEBUG'' = Some ?debug"
    by simp_all
  have p2: "list_all (passedOver defaultOptions ''PORT'') []"
    by simp
  have e2: "list_all (passedOver defaultOptions key) ?env" for key
    by (simp add: passedOver_def getLoaderEntry_def constLoader_def)
  have p3: "resolve (defaultValue ?port) = Returned (JStr ''4637'') \<and> JStr ''4637'' \<noteq> JUndefined"
    by (simp add: keySpec_def)
  have j3: "resolve (defaultValue ?jwt) = Returned JUndefined \<and> notFoundError ?jwt"
    by (simp add: keySpec_def)
  have d3: "resolve (defaultValue ?debug) = Returned JUndefined \<and> \<not> notFoundError ?debug"
    by (simp add: keySpec_def)
  have a: "fst (getEntry [''PORT'' \<mapsto> ?port] [] defaultOptions ''PORT'' state0) =
     Returned (Inr \<lparr>res_loaderType = Some ''defaultValue'', res_path = Some ''key:PORT'',
                    res_value = JStr ''4637''\<rparr>)"
    using no_value_outcome [of "[''PORT'' \<mapsto> ?port]" "''PORT''" ?port defaultOptions "[]" state0,
        OF p1 p2, THEN conjunct1, rule_format, OF p3]
    by simp
  have b: "fst (getEntry [''JWT_SECRET'' \<mapsto> ?jwt] ?env defaultOptions ''JWT_SECRET'' state0) =
     Returned (Inl (VariableLookupError ''JWT_SECRET''
                      ''Missing required value for key: JWT_SECRET''))"
    using no_value_outcome [of "[''JWT_SECRET'' \<mapsto> ?jwt]" "''JWT_SECRET''" ?jwt defaultOptions
        ?env state0, OF j1 e2, THEN conjunct2, THEN conjunct1, rule_format, OF j3]
    by simp
  have c: "fst (getEntry [''DEBUG'' \<mapsto> ?debug] ?env defaultOptions ''DEBUG'' state0) =
     Returned (Inr \<lparr>res_loaderType = None, res_path = Some ''DEBUG'', res_value = JUndefined\<rparr>)"
    using no_value_outcome [of "[''DEBUG'' \<mapsto> ?debug]" "''DEBUG''" ?debug defaultOptions
        ?env state0, OF d1 e2, THEN conjunct2, THEN conjunct2, rule_format, OF d3]
    by simp
  from a b c show ?thesis by blast
qed

text \<open>
  The claim as the spec states it fails: a default is configured (a lazy one), no loader
  gives a value, and the lookup ends in the missing-required-value error, since the
  default resolves to \<open>undefined\<close>.
\<close>

theorem configured_default_not_returned:
  "defaultValue (keySpec booleanParser (Deferred (Returned JUndefined)) True) \<noteq> Direct JUndefined
   \<and> fst (getEntry [''DEBUG'' \<mapsto> keySpec booleanParser (Deferred (Returned JUndefined)) True]
          [] defaultOptions ''DEBUG'' state0) =
     Returned (Inl (VariableLookupError ''DEBUG'' ''Missing required value for key: DEBUG''))"
  by (simp add: getEntry_def schemaEntry_def getEntry'_def noValue_def keySpec_def)

section \<open>Throws of the callees\<close>








section \<open>Repeated lookups and the dedup logger\<close>









section \<open>The value as a string\<close>

text \<open>
  When the resolved value is truthy, \<open>getString\<close> gives it rendered by the parser's
  \<open>toString\<close>.
\<close>

lemma getString_truthy:
  assumes "cfg k = Some schema"
    and "fst (getEntry cfg ls opts k s) = Returned (Inr data)"
    and "truthy (res_value data)"
  shows "fst (getString cfg ls opts k s) =
           Returned (Inr (JStr (toString (parser schema) (res_value data))))"
  using assms
  by (cases "getEntry cfg ls opts k s") (simp add: getString_def schemaEntry_def)

text \<open>
  C9 at a value that is present and falsy. The schema is \<open>{DEBUG: {parser: Boolean}}\<close>,
  the only loader returns the raw string \<open>"false"\<close>, which the parser turns into the
  boolean \<open>false\<close>. \<open>getEntry\<close> resolves to that value, and \<open>getString\<close> returns the
  boolean itself instead of its rendering \<open>"false"\<close>.
\<close>

theorem getString_returns_falsy_value_unrendered:
  "fst (getEntry [''DEBUG'' \<mapsto> keySpec booleanParser (Direct JUndefined) False]
          [Direct (valueLoader ''env'' ''process.env'' (JStr ''false''))]
          defaultOptions ''DEBUG'' state0) =
     Returned (Inr \<lparr>res_loaderType = Some ''env'', res_path = Some ''process.env'',
                    res_value = JBool False\<rparr>)
   \<and> fst (getString [''DEBUG'' \<mapsto> keySpec booleanParser (Direct JUndefined) False]
          [Direct (valueLoader ''env'' ''process.env'' (JStr ''false''))]
          defaultOptions ''DEBUG'' state0) = Returned (Inr (JBool False))
   \<and> toString booleanParser (JBool False) = ''false''"
  by (simp add: getString_def schemaEntry_def getEntry_def getEntry'_def getLoaderEntry_def valueLoader_def
      constLoader_def keySpec_def booleanParser_def booleanText_def)

section \<open>Facts about the single-flight cache\<close>

lemma fold_delete_other:
  "\<forall>d. (d, key) \<notin> set xs \<Longrightarrow>
   fold (\<lambda>(due, k) c. cache_delete c k) xs c key = c key"
  by (induction xs arbitrary: c) (auto simp: cache_delete_def)

lemma fold_delete_hit:
  "key \<in> snd ` set xs \<Longrightarrow> fold (\<lambda>(due, k) c. cache_delete c k) xs c key = None"
proof (induction xs arbitrary: c)
  case Nil
  then show ?case by simp
next
  case (Cons x xs)
  show ?case
  proof (cases "key \<in> snd ` set xs")
    case True
    then have "fold (\<lambda>(due, k) c. cache_delete c k) xs (cache_delete c (snd x)) key = None"
      by (rule Cons.IH)
    then show ?thesis
      by (cases x) simp
  next
    case False
    with Cons.prems have x: "snd x = key"
      by auto
    from False have "\<forall>d. (d, key) \<notin> set xs"
      by force
    then have "fold (\<lambda>(due, k) c. cache_delete c k) xs (cache_delete c key) key =
               cache_delete c key key"
      by (rule fold_delete_other)
    moreover have "cache_delete c key key = None"
      by (simp add: cache_delete_def)
    ultimately show ?thesis
      using x by (cases x) simp
  qed
qed

lemma getRawValue_hit:
  assumes "ksm lk = Some key" and "key \<noteq> []" and "\<not> disabled options"
    and "cache_get (clock s) (valuePromises s) key = Some p"
  shows "getRawValue ksm options lk s = (Awaited p, s)"
  using assms by (simp add: getRawValue_def)

lemma getRawValue_miss:
  assumes "ksm lk = Some key" and "key \<noteq> []" and "\<not> disabled options"
    and "cache_get (clock s) (valuePromises s) key = None"
  shows "getRawValue ksm options lk s =
    (Awaited (length (promises s)),
     s\<lparr>promises := promises s @ [(key, None)],
       getSecretCalls := getSecretCalls s @ [key],
       valuePromises := cache_set (clock s) (expireMs options) (valuePromises s) key
                          (length (promises s))\<rparr>)"
  using assms by (simp add: getRawValue_def)

lemma advance_untouched:
  assumes "\<forall>d. (d, key) \<in> set (timers s) \<longrightarrow> clock s + dt < d"
  shows "valuePromises (advance dt s) key = valuePromises s key"
    and "(d, key) \<in> set (timers (advance dt s)) \<longleftrightarrow> (d, key) \<in> set (timers s)"
proof -
  have "\<forall>d. (d, key) \<notin> set (filter (\<lambda>(due, key). \<not> clock s + dt < due) (timers s))"
    using assms by auto
  then have "fold (\<lambda>(due, k) c. cache_delete c k)
               (filter (\<lambda>(due, key). \<not> clock s + dt < due) (timers s)) (valuePromises s) key =
             valuePromises s key"
    by (rule fold_delete_other)
  then show "valuePromises (advance dt s) key = valuePromises s key"
    by (simp add: advance_def)
  show "(d, key) \<in> set (timers (advance dt s)) \<longleftrightarrow> (d, key) \<in> set (timers s)"
    using assms by (auto simp: advance_def)
qed

lemma advance_evicts:
  assumes "(d, key) \<in> set (timers s)" and "d \<le> clock s + dt"
  shows "valuePromises (advance dt s) key = None"
proof -
  have "key \<in> snd ` set (filter (\<lambda>(due, key). \<not> clock s + dt < due) (timers s))"
    using assms by force
  then have "fold (\<lambda>(due, k) c. cache_delete c k)
               (filter (\<lambda>(due, key). \<not> clock s + dt < due) (timers s)) (valuePromises s) key =
             None"
    by (rule fold_delete_hit)
  then show ?thesis
    by (simp add: advance_def)
qed

lemma advance_fields:
  "clock (advance dt s) = clock s + dt"
  "promises (advance dt s) = promises s"
  "getSecretCalls (advance dt s) = getSecretCalls s"
  by (simp_all add: advance_def)

text \<open>
  While the entry of a key stays in the cache, has not expired and no timer for the key
  comes due, lookups of the key and the passing of time start no remote call: every
  lookup is answered with the promise of the entry.
\<close>

lemma burst_live:
  assumes "ksm lk = Some key" and "key \<noteq> []" and "\<not> disabled options"
  shows "burst lk evs \<Longrightarrow>
     valuePromises s key = Some \<lparr>ce_data = p, ce_expires = exp\<rparr> \<Longrightarrow>
     (case exp of None \<Rightarrow> True | Some t \<Rightarrow> clock s + elapsed evs < t) \<Longrightarrow>
     (\<forall>d. (d, key) \<in> set (timers s) \<longrightarrow> clock s + elapsed evs < d) \<Longrightarrow>
     fst (run ksm options evs s) = replicate (lookups evs) (Awaited p)
     \<and> getSecretCalls (snd (run ksm options evs s)) = getSecretCalls s
     \<and> promises (snd (run ksm options evs s)) = promises s
     \<and> clock (snd (run ksm options evs s)) = clock s + elapsed evs
     \<and> valuePromises (snd (run ksm options evs s)) key = Some \<lparr>ce_data = p, ce_expires = exp\<rparr>
     \<and> (\<forall>d. (d, key) \<in> set (timers (snd (run ksm options evs s)))
              \<longleftrightarrow> (d, key) \<in> set (timers s))"
proof (induction evs arbitrary: s)
  case Nil
  then show ?case by simp
next
  case (Cons e evs)
  show ?case
  proof (cases e)
    case (Lookup k')
    with Cons.prems(1) have k': "k' = lk" and b: "burst lk evs"
      by simp_all
    have live: "cache_get (clock s) (valuePromises s) key = Some p"
      using Cons.prems(2,3) by (auto simp: cache_get_def split: option.splits)
    have here: "getRawValue ksm options lk s = (Awaited p, s)"
      using assms live by (rule getRawValue_hit)
    have ih: "fst (run ksm options evs s) = replicate (lookups evs) (Awaited p)
     \<and> getSecretCalls (snd (run ksm options evs s)) = getSecretCalls s
     \<and> promises (snd (run ksm options evs s)) = promises s
     \<and> clock (snd (run ksm options evs s)) = clock s + elapsed evs
     \<and> valuePromises (snd (run ksm options evs s)) key = Some \<lparr>ce_data = p, ce_expires = exp\<rparr>
     \<and> (\<forall>d. (d, key) \<in> set (timers (snd (run ksm options evs s)))
              \<longleftrightarrow> (d, key) \<in> set (timers s))"
    proof (intro Cons.IH b Cons.prems(2))
      show "case exp of None \<Rightarrow> True | Some t \<Rightarrow> clock s + elapsed evs < t"
        using Cons.prems(3) by (simp add: Lookup split: option.splits)
      show "\<forall>d. (d, key) \<in> set (timers s) \<longrightarrow> clock s + elapsed evs < d"
        using Cons.prems(4) by (simp add: Lookup)
    qed
    show ?thesis
      using ih by (cases "run ksm options evs s") (simp add: Lookup k' here)
  next
    case (Advance dt)
    with Cons.prems(1) have b: "burst lk evs"
      by simp
    have quiet: "\<forall>d. (d, key) \<in> set (timers s) \<longrightarrow> clock s + dt < d"
      using Cons.prems(4) by (auto simp: Advance)
    note keep = advance_untouched [OF quiet]
    have ih: "fst (run ksm options evs (advance dt s)) = replicate (lookups evs) (Awaited p)
     \<and> getSecretCalls (snd (run ksm options evs (advance dt s))) = getSecretCalls (advance dt s)
     \<and> promises (snd (run ksm options evs (advance dt s))) = promises (advance dt s)
     \<and> clock (snd (run ksm options evs (advance dt s))) = clock (advance dt s) + elapsed evs
     \<and> valuePromises (snd (run ksm options evs (advance dt s))) key =
         Some \<lparr>ce_data = p, ce_expires = exp\<rparr>
     \<and> (\<forall>d. (d, key) \<in> set (timers (snd (run ksm options evs (advance dt s))))
              \<longleftrightarrow> (d, key) \<in> set (timers (advance dt s)))"
    proof (intro Cons.IH b)
      show "valuePromises (advance dt s) key = Some \<lparr>ce_data = p, ce_expires = exp\<rparr>"
        using Cons.prems(2) by (simp add: keep(1))
      show "case exp of None \<Rightarrow> True | Some t \<Rightarrow> clock (advance dt s) + elapsed evs < t"
        using Cons.prems(3) by (simp add: Advance advance_fields add.assoc split: option.splits)
      show "\<forall>d. (d, key) \<in> set (timers (advance dt s)) \<longrightarrow>
                clock (advance dt s) + elapsed evs < d"
        using Cons.prems(4) by (simp add: keep(2) Advance advance_fields add.assoc)
    qed
    show ?thesis
      using ih by (simp add: Advance advance_fields keep(2) add.assoc)
  next
    case (Settle p' r)
    with Cons.prems(1) show ?thesis by simp
  next
    case Reload
    with Cons.prems(1) show ?thesis by simp
  qed
qed

section \<open>Single flight\<close>

text \<open>
  C5, as the code has it. The cache is a map, so a key has at most one entry. For a key
  that is mapped to a secret name, with the loader enabled: a lookup that finds a live
  entry is answered with the promise of that entry and changes nothing, so it starts no
  remote call. And when a lookup finds no live entry, this lookup and any number of
  further lookups of the key made while the remote call is unresolved are all answered
  with the one new promise, and \<open>getSecret\<close> is called exactly once, provided the entry
  stays live meanwhile: no \<open>reload\<close>, the time to live \<open>expireMs\<close> unset or not yet
  over, and no timer of an earlier failure pending for the key.
\<close>

theorem single_flight_while_entry_live:
  assumes "ksm lk = Some key" and "key \<noteq> []" and "\<not> disabled options"
  shows "(\<forall>p. cache_get (clock s) (valuePromises s) key = Some p \<longrightarrow>
            getRawValue ksm options lk s = (Awaited p, s))
       \<and> (cache_get (clock s) (valuePromises s) key = None
            \<and> key \<notin> snd ` set (timers s)
            \<and> burst lk evs
            \<and> (case expireMs options of None \<Rightarrow> True | Some ttl \<Rightarrow> elapsed evs < ttl) \<longrightarrow>
              fst (run ksm options (Lookup lk # evs) s) =
                replicate (Suc (lookups evs)) (Awaited (length (promises s)))
            \<and> getSecretCalls (snd (run ksm options (Lookup lk # evs) s)) =
                getSecretCalls s @ [key]
            \<and> promises (snd (run ksm options (Lookup lk # evs) s)) =
                promises s @ [(key, None)])"
proof (intro conjI allI impI)
  fix p
  assume "cache_get (clock s) (valuePromises s) key = Some p"
  with assms show "getRawValue ksm options lk s = (Awaited p, s)"
    by (rule getRawValue_hit)
next
  assume h: "cache_get (clock s) (valuePromises s) key = None
            \<and> key \<notin> snd ` set (timers s)
            \<and> burst lk evs
            \<and> (case expireMs options of None \<Rightarrow> True | Some ttl \<Rightarrow> elapsed evs < ttl)"
  let ?p = "length (promises s)"
  let ?exp = "case expireMs options of None \<Rightarrow> None | Some d \<Rightarrow> Some (clock s + d)"
  let ?s1 = "s\<lparr>promises := promises s @ [(key, None)],
               getSecretCalls := getSecretCalls s @ [key],
               valuePromises := cache_set (clock s) (expireMs options) (valuePromises s) key ?p\<rparr>"
  have first: "getRawValue ksm options lk s = (Awaited ?p, ?s1)"
    using assms h by (intro getRawValue_miss) simp_all
  have rest: "fst (run ksm options evs ?s1) = replicate (lookups evs) (Awaited ?p)
     \<and> getSecretCalls (snd (run ksm options evs ?s1)) = getSecretCalls ?s1
     \<and> promises (snd (run ksm options evs ?s1)) = promises ?s1
     \<and> clock (snd (run ksm options evs ?s1)) = clock ?s1 + elapsed evs
     \<and> valuePromises (snd (run ksm options evs ?s1)) key =
         Some \<lparr>ce_data = ?p, ce_expires = ?exp\<rparr>
     \<and> (\<forall>d. (d, key) \<in> set (timers (snd (run ksm options evs ?s1)))
              \<longleftrightarrow> (d, key) \<in> set (timers ?s1))"
  proof (intro burst_live [of ksm lk key options, OF assms])
    show "burst lk evs"
      using h by simp
    show "valuePromises ?s1 key = Some \<lparr>ce_data = ?p, ce_expires = ?exp\<rparr>"
      by (simp add: cache_set_def)
    show "case ?exp of None \<Rightarrow> True | Some t \<Rightarrow> clock ?s1 + elapsed evs < t"
      using h by (simp split: option.splits)
    show "\<forall>d. (d, key) \<in> set (timers ?s1) \<longrightarrow> clock ?s1 + elapsed evs < d"
      using h by force
  qed
  show "fst (run ksm options (Lookup lk # evs) s) =
          replicate (Suc (lookups evs)) (Awaited (length (promises s)))"
    using rest by (cases "run ksm options evs ?s1") (simp add: first)
  show "getSecretCalls (snd (run ksm options (Lookup lk # evs) s)) = getSecretCalls s @ [key]"
    using rest by (cases "run ksm options evs ?s1") (simp add: first)
  show "promises (snd (run ksm options (Lookup lk # evs) s)) = promises s @ [(key, None)]"
    using rest by (cases "run ksm options evs ?s1") (simp add: first)
qed

theorem single_flight_while_entry_live_witness:
  "fst (run secretMap (azureOptions None None)
          (Lookup ''API_SERVER'' # [Lookup ''API_SERVER'', Advance 500, Lookup ''API_SERVER''])
          init_state) = [Awaited 0, Awaited 0, Awaited 0]
   \<and> getSecretCalls (snd (run secretMap (azureOptions None None)
          (Lookup ''API_SERVER'' # [Lookup ''API_SERVER'', Advance 500, Lookup ''API_SERVER''])
          init_state)) = [''backend-service-url'']
   \<and> getRawValue secretMap (azureOptions None None) ''API_SERVER''
        \<lparr>clock = 7, valuePromises = [''backend-service-url'' \<mapsto> \<lparr>ce_data = 0, ce_expires = None\<rparr>],
         promises = [(''backend-service-url'', None)], timers = [],
         getSecretCalls = [''backend-service-url'']\<rparr> =
       (Awaited 0,
        \<lparr>clock = 7, valuePromises = [''backend-service-url'' \<mapsto> \<lparr>ce_data = 0, ce_expires = None\<rparr>],
         promises = [(''backend-service-url'', None)], timers = [],
         getSecretCalls = [''backend-service-url'']\<rparr>)"
proof -
  let ?o = "azureOptions None None"
  let ?evs = "[Lookup ''API_SERVER'', Advance 500, Lookup ''API_SERVER'']"
  let ?s = "\<lparr>clock = 7, valuePromises = [''backend-service-url'' \<mapsto> \<lparr>ce_data = 0, ce_expires = None\<rparr>],
         promises = [(''backend-service-url'', None)], timers = [],
         getSecretCalls = [''backend-service-url'']\<rparr>"
  have h1: "secretMap ''API_SERVER'' = Some ''backend-service-url''"
    by (simp add: secretMap_def)
  have h2: "''backend-service-url'' \<noteq> []"
    by simp
  have h3: "\<not> disabled ?o"
    by (simp add: azureOptions_def)
  note miss_inst = single_flight_while_entry_live [of secretMap "''API_SERVER''"
      "''backend-service-url''" ?o init_state ?evs, OF h1 h2 h3]
  note hit_inst = single_flight_while_entry_live [of secretMap "''API_SERVER''"
      "''backend-service-url''" ?o ?s "[]", OF h1 h2 h3]
  have miss: "cache_get (clock init_state) (valuePromises init_state) ''backend-service-url'' = None
            \<and> ''backend-service-url'' \<notin> snd ` set (timers init_state)
            \<and> burst ''API_SERVER'' ?evs
            \<and> (case expireMs ?o of None \<Rightarrow> True | Some ttl \<Rightarrow> elapsed ?evs < ttl)"
    by (simp add: init_state_def cache_get_def cache_clear_def azureOptions_def)
  have hit: "cache_get (clock ?s) (valuePromises ?s) ''backend-service-url'' = Some 0"
    by (simp add: cache_get_def)
  have a: "fst (run secretMap ?o (Lookup ''API_SERVER'' # ?evs) init_state) =
             [Awaited 0, Awaited 0, Awaited 0]
         \<and> getSecretCalls (snd (run secretMap ?o (Lookup ''API_SERVER'' # ?evs) init_state)) =
             [''backend-service-url'']"
    using miss_inst [THEN conjunct2, rule_format, OF miss]
    by (simp add: init_state_def)
  have b: "getRawValue secretMap ?o ''API_SERVER'' ?s = (Awaited 0, ?s)"
    using hit_inst [THEN conjunct1, rule_format, OF hit] .
  from a b show ?thesis by blast
qed

text \<open>
  The claim as the spec states it fails. With a time to live of 10 ms, a second lookup
  made 20 ms after the first, while the first remote call is still unresolved, starts a
  second remote call; so does a second lookup after \<open>reload\<close>.
\<close>

theorem second_call_while_first_unresolved:
  "getSecretCalls (snd (run secretMap (azureOptions (Some 10) None)
      [Lookup ''API_SERVER'', Advance 20, Lookup ''API_SERVER''] init_state)) =
     [''backend-service-url'', ''backend-service-url'']
   \<and> promises (snd (run secretMap (azureOptions (Some 10) None)
      [Lookup ''API_SERVER'', Advance 20, Lookup ''API_SERVER''] init_state)) =
     [(''backend-service-url'', None), (''backend-service-url'', None)]
   \<and> getSecretCalls (snd (run secretMap (azureOptions None None)
      [Lookup ''API_SERVER'', Reload, Lookup ''API_SERVER''] init_state)) =
     [''backend-service-url'', ''backend-service-url'']
   \<and> promises (snd (run secretMap (azureOptions None None)
      [Lookup ''API_SERVER'', Reload, Lookup ''API_SERVER''] init_state)) =
     [(''backend-service-url'', None), (''backend-service-url'', None)]"
  by (simp add: getRawValue_def secretMap_def azureOptions_def init_state_def cache_get_def
      cache_set_def cache_clear_def advance_def reload_def)

section \<open>Error backoff\<close>

lemma settle_failure:
  assumes "p < length (promises s)" and "promises s ! p = (key, None)"
  shows "settle options p (Inl err) s =
     s\<lparr>promises := (promises s)[p := (key, Some (Inl err))],
       timers := timers s @ [(clock s + backoff options, key)]\<rparr>"
  using assms by (simp add: settle_def backoff_def)

text \<open>
  C6, as the code has it. The backoff window is \<open>errExpireMs ?? 60000\<close> milliseconds as
  \<open>setTimeout\<close> takes it: 60000 by default, \<open>errExpireMs\<close> when that is from 1 to
  2147483647, and 1 for any other \<open>errExpireMs\<close>. Let a key be mapped to a secret name,
  with the loader enabled; let its entry hold the promise \<open>p\<close> of a remote call that is
  unresolved, with no timer of an earlier failure pending for the key; and let that call
  fail with \<open>err\<close>. Then the entry stays. During any lookups of the key over less than
  the window from the failure, every lookup is answered with \<open>p\<close>, which holds
  \<open>Err err\<close>, and \<open>getSecret\<close> is not called, provided the entry stays live meanwhile:
  no \<open>reload\<close>, and the time to live \<open>expireMs\<close> unset or not yet over. Once the window
  has passed the entry is gone, and the next lookup calls \<open>getSecret\<close> once, for a new
  promise.
\<close>

theorem failure_cached_until_backoff:
  assumes "ksm lk = Some key" and "key \<noteq> []" and "\<not> disabled options"
    and "valuePromises s key = Some \<lparr>ce_data = p, ce_expires = exp\<rparr>"
    and "p < length (promises s)" and "promises s ! p = (key, None)"
    and "key \<notin> snd ` set (timers s)"
    and "burst lk evs"
    and "elapsed evs < backoff options"
    and "case exp of None \<Rightarrow> True | Some t \<Rightarrow> clock s + elapsed evs < t"
    and "s1 = settle options p (Inl err) s"
    and "s2 = snd (run ksm options evs s1)"
    and "s3 = advance dt s2"
  shows "backoff options =
           (case errExpireMs options of
              None \<Rightarrow> 60000
            | Some d \<Rightarrow> if 1 \<le> d \<and> d \<le> 2147483647 then d else 1)
       \<and> cache_get (clock s1) (valuePromises s1) key = Some p
       \<and> fst (run ksm options evs s1) = replicate (lookups evs) (Awaited p)
       \<and> promises s2 ! p = (key, Some (Inl err))
       \<and> getSecretCalls s2 = getSecretCalls s
       \<and> (backoff options \<le> elapsed evs + dt \<longrightarrow>
            cache_get (clock s3) (valuePromises s3) key = None
            \<and> fst (getRawValue ksm options lk s3) = Awaited (length (promises s))
            \<and> getSecretCalls (snd (getRawValue ksm options lk s3)) = getSecretCalls s @ [key])"
proof -
  have s1: "s1 = s\<lparr>promises := (promises s)[p := (key, Some (Inl err))],
                   timers := timers s @ [(clock s + backoff options, key)]\<rparr>"
    using assms(5,6) by (simp add: assms(11) settle_failure)
  have c1: "clock s1 = clock s" and v1: "valuePromises s1 = valuePromises s"
    and t1: "timers s1 = timers s @ [(clock s + backoff options, key)]"
    and g1: "getSecretCalls s1 = getSecretCalls s"
    and p1: "promises s1 = (promises s)[p := (key, Some (Inl err))]"
    by (simp_all add: s1)
  have live: "cache_get (clock s1) (valuePromises s1) key = Some p"
    using assms(4,10) by (auto simp: s1 cache_get_def split: option.splits)
  have during: "fst (run ksm options evs s1) = replicate (lookups evs) (Awaited p)
     \<and> getSecretCalls (snd (run ksm options evs s1)) = getSecretCalls s1
     \<and> promises (snd (run ksm options evs s1)) = promises s1
     \<and> clock (snd (run ksm options evs s1)) = clock s1 + elapsed evs
     \<and> valuePromises (snd (run ksm options evs s1)) key = Some \<lparr>ce_data = p, ce_expires = exp\<rparr>
     \<and> (\<forall>d. (d, key) \<in> set (timers (snd (run ksm options evs s1)))
              \<longleftrightarrow> (d, key) \<in> set (timers s1))"
  proof (intro burst_live [of ksm lk key options, OF assms(1-3)] assms(8))
    show "valuePromises s1 key = Some \<lparr>ce_data = p, ce_expires = exp\<rparr>"
      using assms(4) by (simp add: v1)
    show "case exp of None \<Rightarrow> True | Some t \<Rightarrow> clock s1 + elapsed evs < t"
      unfolding c1 by (rule assms(10))
    show "\<forall>d. (d, key) \<in> set (timers s1) \<longrightarrow> clock s1 + elapsed evs < d"
      unfolding c1 t1 using assms(7,9) by force
  qed
  have held: "promises s2 ! p = (key, Some (Inl err))"
    using during assms(5) by (simp add: assms(12) p1)
  have calls: "getSecretCalls s2 = getSecretCalls s"
    using during by (simp add: assms(12) g1)
  have after: "cache_get (clock s3) (valuePromises s3) key = None
            \<and> fst (getRawValue ksm options lk s3) = Awaited (length (promises s))
            \<and> getSecretCalls (snd (getRawValue ksm options lk s3)) = getSecretCalls s @ [key]"
    if over: "backoff options \<le> elapsed evs + dt"
  proof -
    have pending: "(clock s + backoff options, key) \<in> set (timers s2)"
      using during by (simp add: assms(12) t1)
    have due: "clock s + backoff options \<le> clock s2 + dt"
      using during over by (simp add: assms(12) c1)
    have gone: "valuePromises s3 key = None"
      unfolding assms(13) using pending due by (rule advance_evicts)
    then have none: "cache_get (clock s3) (valuePromises s3) key = None"
      by (simp add: cache_get_def)
    have same: "promises s3 = promises s1" "getSecretCalls s3 = getSecretCalls s"
      using during calls by (simp_all add: assms(12,13) advance_fields)
    have "getRawValue ksm options lk s3 =
      (Awaited (length (promises s3)),
       s3\<lparr>promises := promises s3 @ [(key, None)],
          getSecretCalls := getSecretCalls s3 @ [key],
          valuePromises := cache_set (clock s3) (expireMs options) (valuePromises s3) key
                             (length (promises s3))\<rparr>)"
      using assms(1-3) none by (rule getRawValue_miss)
    with none show ?thesis
      by (simp add: same p1)
  qed
  have window: "backoff options =
           (case errExpireMs options of
              None \<Rightarrow> 60000
            | Some d \<Rightarrow> if 1 \<le> d \<and> d \<le> 2147483647 then d else 1)"
    by (simp add: backoff_def timerDelay_def split: option.splits)
  from window live during held calls after show ?thesis by blast
qed

theorem failure_cached_until_backoff_witness:
  "snd (run secretMap (azureOptions None None) [Lookup ''API_SERVER''] init_state) =
     \<lparr>clock = 0, valuePromises = [''backend-service-url'' \<mapsto> \<lparr>ce_data = 0, ce_expires = None\<rparr>],
      promises = [(''backend-service-url'', None)], timers = [],
      getSecretCalls = [''backend-service-url'']\<rparr>
   \<and> backoff (azureOptions None None) = 60000
   \<and> fst (run secretMap (azureOptions None None)
            [Advance 1000, Lookup ''API_SERVER'', Advance 58999]
            (settle (azureOptions None None) 0 (Inl (Error ''503''))
               \<lparr>clock = 0,
                valuePromises = [''backend-service-url'' \<mapsto> \<lparr>ce_data = 0, ce_expires = None\<rparr>],
                promises = [(''backend-service-url'', None)], timers = [],
                getSecretCalls = [''backend-service-url'']\<rparr>)) = [Awaited 0]
   \<and> getSecretCalls (snd (run secretMap (azureOptions None None)
            [Advance 1000, Lookup ''API_SERVER'', Advance 58999]
            (settle (azureOptions None None) 0 (Inl (Error ''503''))
               \<lparr>clock = 0,
                valuePromises = [''backend-service-url'' \<mapsto> \<lparr>ce_data = 0, ce_expires = None\<rparr>],
                promises = [(''backend-service-url'', None)], timers = [],
                getSecretCalls = [''backend-service-url'']\<rparr>))) = [''backend-service-url'']
   \<and> fst (getRawValue secretMap (azureOptions None None) ''API_SERVER''
        (advance 1 (snd (run secretMap (azureOptions None None)
            [Advance 1000, Lookup ''API_SERVER'', Advance 58999]
            (settle (azureOptions None None) 0 (Inl (Error ''503''))
               \<lparr>clock = 0,
                valuePromises = [''backend-service-url'' \<mapsto> \<lparr>ce_data = 0, ce_expires = None\<rparr>],
                promises = [(''backend-service-url'', None)], timers = [],
                getSecretCalls = [''backend-service-url'']\<rparr>))))) = Awaited 1
   \<and> getSecretCalls (snd (getRawValue secretMap (azureOptions None None) ''API_SERVER''
        (advance 1 (snd (run secretMap (azureOptions None None)
            [Advance 1000, Lookup ''API_SERVER'', Advance 58999]
            (settle (azureOptions None None) 0 (Inl (Error ''503''))
               \<lparr>clock = 0,
                valuePromises = [''backend-service-url'' \<mapsto> \<lparr>ce_data = 0, ce_expires = None\<rparr>],
                promises = [(''backend-service-url'', None)], timers = [],
                getSecretCalls = [''backend-service-url'']\<rparr>)))))) =
       [''backend-service-url'', ''backend-service-url'']"
proof -
  let ?o = "azureOptions None None"
  let ?evs = "[Advance 1000, Lookup ''API_SERVER'', Advance 58999]"
  let ?s = "\<lparr>clock = 0,
             valuePromises = [''backend-service-url'' \<mapsto> \<lparr>ce_data = 0::nat, ce_expires = None\<rparr>],
             promises = [(''backend-service-url'', None)], timers = [],
             getSecretCalls = [''backend-service-url'']\<rparr>"
  let ?s1 = "settle ?o 0 (Inl (Error ''503'')) ?s"
  let ?s2 = "snd (run secretMap ?o ?evs ?s1)"
  let ?s3 = "advance 1 ?s2"
  have start: "snd (run secretMap ?o [Lookup ''API_SERVER''] init_state) = ?s"
    by (simp add: getRawValue_def secretMap_def azureOptions_def init_state_def cache_get_def
        cache_set_def cache_clear_def)
  have window: "backoff ?o = 60000"
    by (simp add: backoff_def timerDelay_def azureOptions_def)
  have h1: "secretMap ''API_SERVER'' = Some ''backend-service-url''"
    by (simp add: secretMap_def)
  have h2: "''backend-service-url'' \<noteq> []"
    by simp
  have h3: "\<not> disabled ?o"
    by (simp add: azureOptions_def)
  have h4: "valuePromises ?s ''backend-service-url'' = Some \<lparr>ce_data = 0, ce_expires = None\<rparr>"
    by simp
  have h5: "0 < length (promises ?s)"
    by simp
  have h6: "promises ?s ! 0 = (''backend-service-url'', None)"
    by simp
  have h7: "''backend-service-url'' \<notin> snd ` set (timers ?s)"
    by simp
  have h8: "burst ''API_SERVER'' ?evs"
    by simp
  have h9: "elapsed ?evs < backoff ?o"
    by (simp add: window)
  have h10: "case None of None \<Rightarrow> True | Some t \<Rightarrow> clock ?s + elapsed ?evs < t"
    by simp
  have over: "backoff ?o \<le> elapsed ?evs + 1"
    by (simp add: window)
  note inst = failure_cached_until_backoff [of secretMap "''API_SERVER''"
      "''backend-service-url''" ?o ?s 0 None ?evs ?s1 "Error ''503''" ?s2 ?s3 1,
      OF h1 h2 h3 h4 h5 h6 h7 h8 h9 h10 refl refl refl]
  have a: "fst (run secretMap ?o ?evs ?s1) = [Awaited 0]"
    using inst [THEN conjunct2, THEN conjunct2, THEN conjunct1] by simp
  have b: "getSecretCalls ?s2 = [''backend-service-url'']"
    using inst [THEN conjunct2, THEN conjunct2, THEN conjunct2, THEN conjunct2, THEN conjunct1]
    by simp
  have c: "fst (getRawValue secretMap ?o ''API_SERVER'' ?s3) = Awaited 1
         \<and> getSecretCalls (snd (getRawValue secretMap ?o ''API_SERVER'' ?s3)) =
             [''backend-service-url'', ''backend-service-url'']"
    using inst [THEN conjunct2, THEN conjunct2, THEN conjunct2, THEN conjunct2, THEN conjunct2,
        rule_format, OF over, THEN conjunct2]
    by simp
  from start window a b c show ?thesis by blast
qed

text \<open>
  The claim as the spec states it fails: a lookup made inside the window starts a new
  remote call. With a time to live of 1000 ms and the default window of 60000 ms, a
  lookup 2000 ms after the failure; a lookup after \<open>reload\<close>; with \<open>errExpireMs\<close> of
  3000000000, for which the window is 1 ms, a lookup 50 ms after the failure; and, the
  timer of an earlier failure still pending, its deletion of the key evicts the entry of
  a later failure, so that a lookup 1000 ms after that failure starts a third call.
\<close>

theorem new_call_within_backoff:
  "backoff (azureOptions (Some 1000) None) = 60000
   \<and> fst (run secretMap (azureOptions (Some 1000) None)
        [Lookup ''API_SERVER'', Settle 0 (Inl (Error ''503'')), Advance 2000,
         Lookup ''API_SERVER''] init_state) = [Awaited 0, Awaited 1]
   \<and> getSecretCalls (snd (run secretMap (azureOptions (Some 1000) None)
        [Lookup ''API_SERVER'', Settle 0 (Inl (Error ''503'')), Advance 2000,
         Lookup ''API_SERVER''] init_state)) =
       [''backend-service-url'', ''backend-service-url'']
   \<and> fst (run secretMap (azureOptions None None)
        [Lookup ''API_SERVER'', Settle 0 (Inl (Error ''503'')), Reload,
         Lookup ''API_SERVER''] init_state) = [Awaited 0, Awaited 1]
   \<and> getSecretCalls (snd (run secretMap (azureOptions None None)
        [Lookup ''API_SERVER'', Settle 0 (Inl (Error ''503'')), Reload,
         Lookup ''API_SERVER''] init_state)) =
       [''backend-service-url'', ''backend-service-url'']
   \<and> backoff (azureOptions None (Some 3000000000)) = 1
   \<and> getSecretCalls (snd (run secretMap (azureOptions None (Some 3000000000))
        [Lookup ''API_SERVER'', Settle 0 (Inl (Error ''503'')), Advance 50,
         Lookup ''API_SERVER''] init_state)) =
       [''backend-service-url'', ''backend-service-url'']
   \<and> fst (run secretMap (azureOptions None None)
        [Lookup ''API_SERVER'', Settle 0 (Inl (Error ''503'')), Reload, Advance 59000,
         Lookup ''API_SERVER'', Settle 1 (Inl (Error ''503'')), Advance 1000,
         Lookup ''API_SERVER''] init_state) = [Awaited 0, Awaited 1, Awaited 2]
   \<and> getSecretCalls (snd (run secretMap (azureOptions None None)
        [Lookup ''API_SERVER'', Settle 0 (Inl (Error ''503'')), Reload, Advance 59000,
         Lookup ''API_SERVER'', Settle 1 (Inl (Error ''503'')), Advance 1000,
         Lookup ''API_SERVER''] init_state)) =
       [''backend-service-url'', ''backend-service-url'', ''backend-service-url'']"
  by (simp add: backoff_def timerDelay_def getRawValue_def settle_def secretMap_def
      azureOptions_def init_state_def cache_get_def cache_set_def cache_clear_def
      cache_delete_def advance_def reload_def Let_def)

end
